(* ===== verification/Prelude.thy ===== *)
theory Prelude
  imports Main "HOL-Library.Word"
begin

text \<open>
  What every component shares: the widths of the machine integers, byte strings, the two
  ways a Rust function fails to return (a panic, a loop that does not end), \<open>Duration\<close> and
  \<open>Instant\<close> of the standard library, the standard library's operations on vectors and
  slices that the sources call, and the generic lemmas about them.

  Conventions of the whole development:
  \<^item> a Rust \<open>String\<close> or \<open>&str\<close> is a \<open>string\<close>, one \<open>char\<close> (8 bits) per UTF-8 byte;
    a \<open>Vec<u8>\<close> or \<open>&[u8]\<close> is a list of \<open>8 word\<close>;
  \<^item> a \<open>Duration\<close> is a number of nanoseconds up to \<open>dur_max\<close>, an \<open>Instant\<close> the number
    of nanoseconds since the clock's origin;
  \<^item> a function that can panic returns an \<open>outcome\<close>; a loop that need not end returns an
    \<open>option\<close>, \<open>None\<close> being non-termination;
  \<^item> code that is not in the repository (libp2p, tokio, hickory, if-watch, the random
    generator, the clock) is an argument of the definitions that use it.
\<close>

section \<open>Machine integers and byte strings\<close>

type_synonym u8 = "8 word"
type_synonym u16 = "16 word"
type_synonym u32 = "32 word"
type_synonym u64 = "64 word"
type_synonym bytes = "u8 list"

definition byte_of :: "char \<Rightarrow> u8" where
  "byte_of c = of_char c"

definition bytes_of :: "string \<Rightarrow> bytes" where
  "bytes_of s = map byte_of s"

lemma length_bytes_of [simp]: "length (bytes_of s) = length s"
  by (simp add: bytes_of_def)

lemma bytes_of_append [simp]: "bytes_of (s @ t) = bytes_of s @ bytes_of t"
  by (simp add: bytes_of_def)

lemma bytes_of_Nil_iff [simp]: "bytes_of s = [] \<longleftrightarrow> s = []"
  by (simp add: bytes_of_def)

lemma unat_byte_of: "unat (byte_of c) = of_char c"
proof -
  have "byte_of c = of_nat (of_char c)"
    by (simp add: byte_of_def of_nat_of_char)
  moreover have "(of_char c :: nat) < 256"
    by simp
  ultimately show ?thesis
    by (simp add: unat_of_nat take_bit_nat_eq_self)
qed

lemma byte_of_inject [simp]: "byte_of c = byte_of d \<longleftrightarrow> c = d"
  by (metis unat_byte_of of_char_eq_iff)

lemma bytes_of_inject [simp]: "bytes_of s = bytes_of t \<longleftrightarrow> s = t"
  unfolding bytes_of_def by (rule inj_map_eq_map) (simp add: inj_def)

lemma u16_of_nat_inverse: "n < 65536 \<Longrightarrow> unat (word_of_nat n :: u16) = n"
  by (simp add: unat_of_nat take_bit_nat_eq_self)

lemma u8_of_nat_inverse: "n < 256 \<Longrightarrow> unat (word_of_nat n :: u8) = n"
  by (simp add: unat_of_nat take_bit_nat_eq_self)

section \<open>Panics\<close>

text \<open>
  A Rust call either returns or panics (an \<open>assert!\<close>, an overflowing \<open>Duration\<close> sum, an
  index out of range). A \<open>debug_assert!\<close> is not a panic here: the release build, which
  the manifest configures, compiles it out; that the debug assertions hold is stated as
  properties of their own.
\<close>

datatype 'a outcome = Panic | Ret (returned: 'a)

fun and_then :: "'a outcome \<Rightarrow> ('a \<Rightarrow> 'b outcome) \<Rightarrow> 'b outcome" where
  "and_then Panic f = Panic"
| "and_then (Ret x) f = f x"

lemma and_then_eq_Ret [simp]: "and_then m f = Ret y \<longleftrightarrow> (\<exists>x. m = Ret x \<and> f x = Ret y)"
  by (cases m) auto

lemma and_then_eq_Panic: "and_then m f = Panic \<longleftrightarrow> m = Panic \<or> (\<exists>x. m = Ret x \<and> f x = Panic)"
  by (cases m) auto

lemma and_then_Ret_right [simp]: "and_then m Ret = m"
  by (cases m) auto

lemma and_then_assoc: "and_then (and_then m f) g = and_then m (\<lambda>x. and_then (f x) g)"
  by (cases m) auto

text \<open>What a future or a stream answers when it is polled.\<close>

datatype 'a poll = Pending | Ready 'a

section \<open>Time\<close>

type_synonym duration = nat
type_synonym instant = nat

text \<open>
  \<open>Duration::MAX\<close> is \<open>2^64 - 1\<close> seconds and \<open>999999999\<close> nanoseconds. On the platforms
  the sources are built for an \<open>Instant\<close> holds a signed 64-bit count of seconds.
\<close>

definition nanos_per_sec :: nat where
  "nanos_per_sec = 1000000000"

definition dur_max :: duration where
  "dur_max = 2 ^ 64 * nanos_per_sec - 1"

definition inst_max :: instant where
  "inst_max = 2 ^ 63 * nanos_per_sec - 1"

definition dur_from_secs :: "u64 \<Rightarrow> duration" where
  "dur_from_secs s = unat s * nanos_per_sec"

definition dur_from_millis :: "u64 \<Rightarrow> duration" where
  "dur_from_millis m = unat m * 1000000"

definition dur_as_secs :: "duration \<Rightarrow> nat" where
  "dur_as_secs d = d div nanos_per_sec"

definition dur_subsec_nanos :: "duration \<Rightarrow> nat" where
  "dur_subsec_nanos d = d mod nanos_per_sec"

definition dur_checked_mul :: "duration \<Rightarrow> u32 \<Rightarrow> duration option" where
  "dur_checked_mul d k = (if d * unat k \<le> dur_max then Some (d * unat k) else None)"

text \<open>The operators \<open>*\<close> and \<open>+\<close> of \<open>Duration\<close>, and \<open>Instant + Duration\<close>, panic on overflow.\<close>

definition dur_mul :: "duration \<Rightarrow> u32 \<Rightarrow> duration outcome" where
  "dur_mul d k = (case dur_checked_mul d k of Some r \<Rightarrow> Ret r | None \<Rightarrow> Panic)"

definition dur_add :: "duration \<Rightarrow> duration \<Rightarrow> duration outcome" where
  "dur_add d e = (if d + e \<le> dur_max then Ret (d + e) else Panic)"

definition inst_add :: "instant \<Rightarrow> duration \<Rightarrow> instant outcome" where
  "inst_add t d = (if t + d \<le> inst_max then Ret (t + d) else Panic)"

text \<open>\<open>then.elapsed()\<close>: zero when the clock reads earlier than \<open>then\<close>.\<close>

definition elapsed :: "instant \<Rightarrow> instant \<Rightarrow> duration" where
  "elapsed now started = now - started"

lemma dur_from_secs_le_max: "dur_from_secs s \<le> dur_max"
proof -
  have "unat s < 2 ^ 64"
    using unsigned_less [of s, where ?'a = nat] by simp
  then show ?thesis
    by (simp add: dur_from_secs_def dur_max_def nanos_per_sec_def)
qed

lemma dur_checked_mul_Some:
  "dur_checked_mul d k = Some r \<longleftrightarrow> r = d * unat k \<and> d * unat k \<le> dur_max"
  by (auto simp: dur_checked_mul_def)

section \<open>Vectors and slices of the standard library\<close>

text \<open>\<open>Vec::remove\<close> panics on an index out of range.\<close>

definition vec_remove :: "nat \<Rightarrow> 'a list \<Rightarrow> 'a list outcome" where
  "vec_remove i xs = (if i < length xs then Ret (take i xs @ drop (Suc i) xs) else Panic)"

text \<open>\<open>slice::split\<close>: one piece more than there are separators, never none.\<close>

fun split_on :: "'a \<Rightarrow> 'a list \<Rightarrow> 'a list list" where
  "split_on c [] = [[]]"
| "split_on c (x # xs) =
     (if x = c then [] # split_on c xs
      else (case split_on c xs of
              [] \<Rightarrow> [[x]]
            | p # ps \<Rightarrow> (x # p) # ps))"

lemma split_on_not_Nil [simp]: "split_on c xs \<noteq> []"
  by (induction xs) (auto split: list.splits)

lemma split_on_sum: "sum_list (map (\<lambda>p. Suc (length p)) (split_on c xs)) = Suc (length xs)"
proof (induction xs)
  case Nil
  then show ?case by simp
next
  case (Cons x xs)
  then show ?case by (cases "split_on c xs") auto
qed

lemma split_on_free: "p \<in> set (split_on c xs) \<Longrightarrow> c \<notin> set p"
proof (induction xs arbitrary: p)
  case Nil
  then show ?case by simp
next
  case (Cons x xs)
  show ?case
  proof (cases "split_on c xs")
    case Nil
    then show ?thesis by simp
  next
    case (Cons q qs)
    with Cons.IH [of q] Cons.IH Cons.prems show ?thesis
      by (auto split: if_splits)
  qed
qed

lemma split_on_no_sep: "c \<notin> set xs \<Longrightarrow> split_on c xs = [xs]"
  by (induction xs) auto

lemma split_on_append_sep:
  "c \<notin> set xs \<Longrightarrow> split_on c (xs @ c # ys) = xs # split_on c ys"
  by (induction xs) auto

text \<open>\<open>slice::starts_with\<close>.\<close>

definition starts_with :: "'a list \<Rightarrow> 'a list \<Rightarrow> bool" where
  "starts_with xs pre \<longleftrightarrow> take (length pre) xs = pre"

lemma starts_with_append [simp]: "starts_with (pre @ xs) pre"
  by (simp add: starts_with_def)

text \<open>
  \<open>str::from_utf8\<close>: the byte ranges of well-formed UTF-8 (Unicode, table 3-7). The text of a
  valid slice is the same bytes.
\<close>

definition cont_byte :: "nat \<Rightarrow> bool" where
  "cont_byte b \<longleftrightarrow> 0x80 \<le> b \<and> b \<le> 0xBF"

definition utf8_second :: "nat \<Rightarrow> nat \<Rightarrow> bool" where
  "utf8_second b c =
     (if b = 0xE0 then 0xA0 \<le> c \<and> c \<le> 0xBF
      else if b = 0xED then 0x80 \<le> c \<and> c \<le> 0x9F
      else if b = 0xF0 then 0x90 \<le> c \<and> c \<le> 0xBF
      else if b = 0xF4 then 0x80 \<le> c \<and> c \<le> 0x8F
      else cont_byte c)"

definition utf8_extra :: "nat \<Rightarrow> nat option" where
  "utf8_extra b =
     (if b \<le> 0x7F then Some 0
      else if 0xC2 \<le> b \<and> b \<le> 0xDF then Some 1
      else if 0xE0 \<le> b \<and> b \<le> 0xEF then Some 2
      else if 0xF0 \<le> b \<and> b \<le> 0xF4 then Some 3
      else None)"

function valid_utf8 :: "nat list \<Rightarrow> bool" where
  "valid_utf8 [] = True"
| "valid_utf8 (b # bs) =
     (case utf8_extra b of
        None \<Rightarrow> False
      | Some n \<Rightarrow>
          n \<le> length bs \<and> (n = 0 \<or> utf8_second b (hd bs)) \<and> list_all cont_byte (take n bs) \<and>
          valid_utf8 (drop n bs))"
  by pat_completeness auto
termination
  by (relation "measure length") auto

definition text_of :: "bytes \<Rightarrow> string" where
  "text_of bs = map (\<lambda>b. char_of (unat b)) bs"

definition from_utf8 :: "bytes \<Rightarrow> string option" where
  "from_utf8 bs = (if valid_utf8 (map unat bs) then Some (text_of bs) else None)"

lemma text_of_bytes_of [simp]: "text_of (bytes_of s) = s"
  by (simp add: text_of_def bytes_of_def comp_def unat_byte_of)

lemma valid_utf8_ascii: "list_all (\<lambda>b. b < 128) bs \<Longrightarrow> valid_utf8 bs"
  by (induction bs) (simp_all add: utf8_extra_def)

lemma from_utf8_ascii:
  "list_all (\<lambda>c. of_char c < (128 :: nat)) s \<Longrightarrow> from_utf8 (bytes_of s) = Some s"
  by (simp add: from_utf8_def valid_utf8_ascii list_all_iff bytes_of_def unat_byte_of)
    (simp add: text_of_def comp_def unat_byte_of)

section \<open>Logs beside a state\<close>

text \<open>An operation of the outside, run beside a log that it does not touch.\<close>

definition beside_log :: "('g \<Rightarrow> 'r \<times> 'g) \<Rightarrow> 'g \<times> 'l \<Rightarrow> 'r \<times> 'g \<times> 'l" where
  "beside_log f s = (fst (f (fst s)), snd (f (fst s)), snd s)"

lemma beside_log_log [simp]: "snd (snd (beside_log f s)) = snd s"
  by (simp add: beside_log_def)

lemma beside_log_result [simp]: "fst (beside_log f s) = fst (f (fst s))"
  by (simp add: beside_log_def)

end
