(* ===== verification/Backoff.thy ===== *)
theory Backoff
  imports Prelude
begin

text \<open>
  \<open>src/utils.rs\<close>, \<open>ExponentialBackoff\<close>: the retry timer of the gossip and the DHT
  behaviours. \<open>start_next\<close> and \<open>is_expired\<close> read the clock; its reading is their first
  argument.
\<close>

record backoff =
  reset_val :: duration
  backoff_factor :: u32
  timeout :: duration
  started :: "instant option"

section \<open>Operations\<close>

text \<open>\<open>next_timeout * backoff_factor\<close> panics on overflow.\<close>

definition backoff_new :: "u32 \<Rightarrow> duration \<Rightarrow> backoff outcome" where
  "backoff_new factor next_timeout =
     and_then (dur_mul next_timeout factor)
       (\<lambda>t. Ret \<lparr>reset_val = next_timeout, backoff_factor = factor, timeout = t, started = None\<rparr>)"

definition backoff_default :: backoff where
  "backoff_default =
     \<lparr>reset_val = dur_from_millis 500, backoff_factor = 2, timeout = dur_from_millis 500,
      started = None\<rparr>"

definition reset :: "backoff \<Rightarrow> backoff" where
  "reset b = b\<lparr>timeout := reset_val b\<rparr>"

definition start_next :: "instant \<Rightarrow> bool \<Rightarrow> backoff \<Rightarrow> backoff" where
  "start_next now result b =
     (if result then b\<lparr>timeout := reset_val b, started := Some now\<rparr>
      else
        let b' = (case dur_checked_mul (timeout b) (backoff_factor b) of
                    Some r \<Rightarrow> b\<lparr>timeout := r\<rparr>
                  | None \<Rightarrow> b)
        in b'\<lparr>started := Some now\<rparr>)"

definition is_expired :: "instant \<Rightarrow> backoff \<Rightarrow> bool" where
  "is_expired now b =
     (case started b of
        Some t \<Rightarrow> elapsed now t > timeout b
      | None \<Rightarrow> True)"

section \<open>Invariant and single steps\<close>

definition backoff_ok :: "backoff \<Rightarrow> bool" where
  "backoff_ok b \<longleftrightarrow>
     reset_val b \<le> dur_max \<and> timeout b \<le> dur_max \<and> 0 < unat (backoff_factor b)"

lemma backoff_ok_default [simp]: "backoff_ok backoff_default"
  by (simp add: backoff_ok_def backoff_default_def dur_from_millis_def dur_max_def
      nanos_per_sec_def)

lemma backoff_ok_new:
  "backoff_new f d = Ret b \<Longrightarrow> d \<le> dur_max \<Longrightarrow> 0 < unat f \<Longrightarrow> backoff_ok b"
  by (auto simp: backoff_new_def backoff_ok_def dur_mul_def dur_checked_mul_Some
      split: option.splits)

lemma start_next_ok [simp]: "backoff_ok b \<Longrightarrow> backoff_ok (start_next now r b)"
  by (auto simp: start_next_def backoff_ok_def Let_def dur_checked_mul_Some split: option.splits)

lemma reset_ok [simp]: "backoff_ok b \<Longrightarrow> backoff_ok (reset b)"
  by (simp add: reset_def backoff_ok_def)

lemma start_next_fields [simp]:
  "reset_val (start_next now r b) = reset_val b"
  "backoff_factor (start_next now r b) = backoff_factor b"
  "started (start_next now r b) = Some now"
  by (auto simp: start_next_def Let_def split: option.splits)

lemma start_next_timeout:
  "timeout (start_next now r b) =
     (if r then reset_val b
      else if timeout b * unat (backoff_factor b) \<le> dur_max
        then timeout b * unat (backoff_factor b) else timeout b)"
  by (simp add: start_next_def Let_def dur_checked_mul_def)

lemma start_next_failure_grows:
  "backoff_ok b \<Longrightarrow> timeout b \<le> timeout (start_next now False b)"
  by (simp add: start_next_timeout backoff_ok_def)

lemma is_expired_unstarted [simp]: "started b = None \<Longrightarrow> is_expired now b"
  by (simp add: is_expired_def)

lemma is_expired_started:
  "started b = Some t \<Longrightarrow> is_expired now b \<longleftrightarrow> t + timeout b < now"
  by (auto simp: is_expired_def elapsed_def)

lemma is_expired_mono: "is_expired t b \<Longrightarrow> t \<le> u \<Longrightarrow> is_expired u b"
  by (auto simp: is_expired_def elapsed_def split: option.splits)

section \<open>Runs of failures\<close>

text \<open>The timer after a list of failed attempts, each at its own clock reading.\<close>

fun failures :: "instant list \<Rightarrow> backoff \<Rightarrow> backoff" where
  "failures [] b = b"
| "failures (t # ts) b = failures ts (start_next t False b)"

lemma failures_factor [simp]: "backoff_factor (failures ts b) = backoff_factor b"
  by (induction ts arbitrary: b) simp_all

lemma failures_reset_val [simp]: "reset_val (failures ts b) = reset_val b"
  by (induction ts arbitrary: b) simp_all

lemma failures_stuck:
  "dur_max < timeout b * unat (backoff_factor b) \<Longrightarrow> timeout (failures ts b) = timeout b"
  by (induction ts arbitrary: b) (simp_all add: start_next_timeout)

text \<open>The timeout is the start value times a power of the factor, the largest that fits.\<close>

lemma failures_power:
  "\<exists>k \<le> length ts. timeout (failures ts b) = timeout b * unat (backoff_factor b) ^ k \<and>
     (k = length ts \<or> dur_max < timeout b * unat (backoff_factor b) ^ Suc k)"
proof (induction ts arbitrary: b)
  case Nil
  then show ?case by simp
next
  case (Cons t ts)
  let ?f = "unat (backoff_factor b)"
  show ?case
  proof (cases "timeout b * ?f \<le> dur_max")
    case True
    then have step: "timeout (start_next t False b) = timeout b * ?f"
      by (simp add: start_next_timeout)
    from Cons.IH [of "start_next t False b"] step obtain k where
      "k \<le> length ts" "timeout (failures (t # ts) b) = timeout b * ?f * ?f ^ k"
      "k = length ts \<or> dur_max < timeout b * ?f * ?f ^ Suc k"
      by auto
    then show ?thesis
      by (intro exI [of _ "Suc k"]) (auto simp: mult.assoc)
  next
    case False
    then have "timeout (failures (t # ts) b) = timeout b"
      by (simp add: failures_stuck start_next_timeout)
    with False show ?thesis by (intro exI [of _ 0]) simp
  qed
qed

lemma failures_append: "failures (ts @ us) b = failures us (failures ts b)"
  by (induction ts arbitrary: b) simp_all

text \<open>
  C38: After a run of failed attempts, the last at \<open>t\<close>, the next retry is due exactly when the
  clock has passed \<open>t\<close> by more than the first timeout times a power of the factor. The power is
  the number of failures, or the largest for which the product is still a \<open>Duration\<close>: the
  multiplication neither overflows nor wraps.
\<close>

theorem retry_due_after_failures:
  "\<exists>k. k \<le> Suc (length ts) \<and>
     (\<forall>now. is_expired now (failures (ts @ [t]) b)
        \<longleftrightarrow> t + timeout b * unat (backoff_factor b) ^ k < now) \<and>
     (k = Suc (length ts) \<or> dur_max < timeout b * unat (backoff_factor b) ^ Suc k)"
proof -
  have "started (failures (ts @ [t]) b) = Some t" by (simp add: failures_append)
  then show ?thesis
    using failures_power [of "ts @ [t]" b] by (fastforce simp: is_expired_started)
qed

end
