(* ===== verification/Notify.thy ===== *)
theory Notify
  imports Prelude
begin

text \<open>
  \<open>src/utils.rs\<close>, \<open>SubscribableMutex\<close>: the node's user state with its change subscribers.
  The locks are held for a whole operation, so an operation is a
  function of the state; sending on a subscriber's channel is tokio's and is the argument
  \<open>tx_send\<close>: it answers whether the send succeeded and gives the new state of the world.
\<close>

record ('s, 'tx) subscribable_mutex =
  subscribers :: "'tx list"
  mutex :: 's

definition subscribable_new :: "'s \<Rightarrow> ('s, 'tx) subscribable_mutex" where
  "subscribable_new t = \<lparr>subscribers = [], mutex = t\<rparr>"

section \<open>Operations\<close>

text \<open>The first loop: send to each subscriber, and collect the indexes that failed.\<close>

fun send_all :: "('tx \<Rightarrow> 'w \<Rightarrow> bool \<times> 'w) \<Rightarrow> nat \<Rightarrow> 'tx list \<Rightarrow> 'w \<Rightarrow> nat list \<times> 'w" where
  "send_all tx_send idx [] w = ([], w)"
| "send_all tx_send idx (sender # rest) w =
     (let (sent, w1) = tx_send sender w;
          (failed, w2) = send_all tx_send (Suc idx) rest w1
      in (if sent then failed else idx # failed, w2))"

text \<open>The second loop: \<open>lock.remove(idx)\<close> for the indexes in the order given.\<close>

fun remove_all :: "nat list \<Rightarrow> 'a list \<Rightarrow> 'a list outcome" where
  "remove_all [] xs = Ret xs"
| "remove_all (i # is) xs = and_then (vec_remove i xs) (remove_all is)"

definition notify_change_subscribers ::
    "('tx \<Rightarrow> 'w \<Rightarrow> bool \<times> 'w) \<Rightarrow> ('s, 'tx) subscribable_mutex \<Rightarrow> 'w
      \<Rightarrow> (('s, 'tx) subscribable_mutex \<times> 'w) outcome" where
  "notify_change_subscribers tx_send m w =
     (let (idx_to_remove, w') = send_all tx_send 0 (subscribers m) w
      in and_then (remove_all (rev idx_to_remove) (subscribers m))
           (\<lambda>left. Ret (m\<lparr>subscribers := left\<rparr>, w')))"

definition modify ::
    "('tx \<Rightarrow> 'w \<Rightarrow> bool \<times> 'w) \<Rightarrow> ('s \<Rightarrow> 's) \<Rightarrow> ('s, 'tx) subscribable_mutex \<Rightarrow> 'w
      \<Rightarrow> (('s, 'tx) subscribable_mutex \<times> 'w) outcome" where
  "modify tx_send cb m w =
     (let m1 = m\<lparr>mutex := cb (mutex m)\<rparr> in notify_change_subscribers tx_send m1 w)"

definition cloned :: "('s, 'tx) subscribable_mutex \<Rightarrow> 's" where
  "cloned m = mutex m"

section \<open>The two loops are one filter\<close>

text \<open>The specification: send in order, keep the subscribers whose send succeeded.\<close>

fun keep_reachable :: "('tx \<Rightarrow> 'w \<Rightarrow> bool \<times> 'w) \<Rightarrow> 'tx list \<Rightarrow> 'w \<Rightarrow> 'tx list \<times> 'w" where
  "keep_reachable tx_send [] w = ([], w)"
| "keep_reachable tx_send (sender # rest) w =
     (let (sent, w1) = tx_send sender w;
          (left, w2) = keep_reachable tx_send rest w1
      in (if sent then sender # left else left, w2))"

lemma vec_remove_append: "vec_remove (length xs) (xs @ y # ys) = Ret (xs @ ys)"
  by (simp add: vec_remove_def)

lemma remove_all_append:
  "remove_all (is @ js) xs = and_then (remove_all is xs) (remove_all js)"
proof (induction "is" arbitrary: xs)
  case Nil
  then show ?case by simp
next
  case (Cons i "is")
  then show ?case by (cases "vec_remove i xs") simp_all
qed

lemma send_all_world: "snd (send_all tx_send i xs w) = snd (keep_reachable tx_send xs w)"
  by (induction xs arbitrary: i w) (simp_all add: split_beta Let_def)

lemma remove_failed:
  "remove_all (rev (fst (send_all tx_send (length pre) xs w))) (pre @ xs)
     = Ret (pre @ fst (keep_reachable tx_send xs w))"
proof (induction xs arbitrary: pre w)
  case Nil
  then show ?case by simp
next
  case (Cons x xs)
  obtain sent w1 where s: "tx_send x w = (sent, w1)" by force
  from Cons.IH [of "pre @ [x]" w1]
  have rest: "remove_all (rev (fst (send_all tx_send (Suc (length pre)) xs w1))) (pre @ x # xs)
      = Ret (pre @ x # fst (keep_reachable tx_send xs w1))"
    by simp
  with s show ?case
    by (auto simp: split_beta Let_def remove_all_append vec_remove_append)
qed

lemma notify_keeps_reachable:
  "notify_change_subscribers tx_send m w =
     (let (left, w') = keep_reachable tx_send (subscribers m) w
      in Ret (m\<lparr>subscribers := left\<rparr>, w'))"
  using remove_failed [of tx_send "[]" "subscribers m" w]
    send_all_world [of tx_send 0 "subscribers m" w]
  by (auto simp: notify_change_subscribers_def split_beta Let_def)

text \<open>
  C39: Changing the shared state applies the change, sends one notification to every subscriber in
  the order of subscription, and keeps exactly the subscribers that could be reached: removing
  the failed indexes from the back never panics and never hits a neighbour.
\<close>

theorem modify_notifies_and_prunes:
  "modify tx_send cb m w =
     (let (left, w') = keep_reachable tx_send (subscribers m) w
      in Ret (\<lparr>subscribers = left, mutex = cb (mutex m)\<rparr>, w'))"
  by (simp add: modify_def notify_keeps_reachable split_beta Let_def)

end
