(* ===== verification/DnsEncode.thy ===== *)
theory DnsEncode
  imports Prelude
begin

unbundle bit_operations_syntax

text \<open>
  \<open>src/behaviours/mdns_bhv/iface/dns.rs\<close>: the encoder of mDNS packets. A function that
  appends to \<open>out: &mut Vec<u8>\<close> takes the buffer and returns the longer one; one that
  asserts returns an \<open>outcome\<close>; one that returns a \<open>Result\<close> gives a sum, with the buffer
  beside it where a failing call leaves it changed.
\<close>

section \<open>Constants\<close>

definition MAX_TXT_VALUE_LENGTH :: nat where
  "MAX_TXT_VALUE_LENGTH = 255"

definition MAX_TXT_RECORD_SIZE :: nat where
  "MAX_TXT_RECORD_SIZE = MAX_TXT_VALUE_LENGTH + 45"

definition MAX_PACKET_SIZE :: nat where
  "MAX_PACKET_SIZE = 9000 - 68"

definition MAX_RECORDS_PER_PACKET :: nat where
  "MAX_RECORDS_PER_PACKET = (MAX_PACKET_SIZE - 100) div MAX_TXT_RECORD_SIZE"

lemma MAX_RECORDS_PER_PACKET_eq [simp]: "MAX_RECORDS_PER_PACKET = 29"
  by (simp add: MAX_RECORDS_PER_PACKET_def MAX_PACKET_SIZE_def MAX_TXT_RECORD_SIZE_def
      MAX_TXT_VALUE_LENGTH_def)

section \<open>Errors\<close>

datatype mdns_response_error = TxtRecordTooLong | NonAsciiMultiaddr

fun show_mdns_response_error :: "mdns_response_error \<Rightarrow> string" where
  "show_mdns_response_error TxtRecordTooLong = ''TXT record invalid because it is too long''"
| "show_mdns_response_error NonAsciiMultiaddr =
     ''A multiaddr contains non-ASCII characters when serialized''"

section \<open>Character strings\<close>

abbreviation quote_byte :: u8 where
  "quote_byte \<equiv> byte_of (CHR 0x22)"

definition decode_character_string :: "bytes \<Rightarrow> unit + bytes" where
  "decode_character_string text =
     (if text = [] then Inr []
      else if hd text = quote_byte then
        (if length text = 1 \<or> last text \<noteq> quote_byte then Inl ()
         else Inr (take (length text - 2) (drop 1 text)))
      else Inr text)"

definition is_ascii :: "string \<Rightarrow> bool" where
  "is_ascii s = list_all (\<lambda>c. of_char c < (128 :: nat)) s"

text \<open>The body of the escaping loop, and the loop.\<close>

definition escape_chr :: "char \<Rightarrow> string" where
  "escape_chr chr =
     (if chr = CHR 0x5C then [CHR 0x5C, CHR 0x5C]
      else if chr = CHR 0x22 then [CHR 0x5C, CHR 0x22]
      else [chr])"

fun escape_all :: "bytes \<Rightarrow> string \<Rightarrow> bytes" where
  "escape_all out [] = out"
| "escape_all out (chr # rest) = escape_all (out @ bytes_of (escape_chr chr)) rest"

definition append_character_string :: "bytes \<Rightarrow> string \<Rightarrow> mdns_response_error + bytes" where
  "append_character_string out ascii_str =
     (if \<not> is_ascii ascii_str then Inl NonAsciiMultiaddr
      else if \<not> list_ex (\<lambda>c. c = CHR '' '') ascii_str then Inr (out @ bytes_of ascii_str)
      else
        let out1 = out @ [quote_byte];
            out2 = escape_all out1 ascii_str
        in Inr (out2 @ [quote_byte]))"

section \<open>Integers and names\<close>

definition append_u32 :: "bytes \<Rightarrow> u32 \<Rightarrow> bytes" where
  "append_u32 out value =
     out @ [ucast ((drop_bit 24 value) AND 0xff)] @ [ucast ((drop_bit 16 value) AND 0xff)]
         @ [ucast ((drop_bit 8 value) AND 0xff)] @ [ucast (value AND 0xff)]"

definition append_u16 :: "bytes \<Rightarrow> u16 \<Rightarrow> bytes" where
  "append_u16 out value =
     out @ [ucast ((drop_bit 8 value) AND 0xff)] @ [ucast (value AND 0xff)]"

fun append_labels :: "bytes \<Rightarrow> bytes list \<Rightarrow> bytes outcome" where
  "append_labels out [] = Ret out"
| "append_labels out (element # rest) =
     (if \<not> length element < 64 then Panic
      else if length element = 0 then Panic
      else append_labels (out @ [word_of_nat (length element)] @ element) rest)"

definition append_qname :: "bytes \<Rightarrow> bytes \<Rightarrow> bytes outcome" where
  "append_qname out name =
     and_then (append_labels out (split_on (byte_of (CHR ''.'')) name)) (\<lambda>out1. Ret (out1 @ [0]))"

definition duration_to_secs :: "duration \<Rightarrow> u32" where
  "duration_to_secs d =
     (let secs = min (dur_as_secs d + (if dur_subsec_nanos d > 0 then 1 else 0)) (2 ^ 64 - 1)
      in word_of_nat (min secs (2 ^ 32 - 1)))"

section \<open>Records and packets\<close>

definition append_txt_record ::
    "bytes \<Rightarrow> bytes \<Rightarrow> u32 \<Rightarrow> string \<Rightarrow> (mdns_response_error + unit) \<times> bytes" where
  "append_txt_record out name ttl_secs value =
     (let out1 = out @ name;
          out2 = out1 @ [0x00] @ [0x10] @ [0x80] @ [0x01];
          out3 = append_u32 out2 ttl_secs
      in if length value > MAX_TXT_VALUE_LENGTH then (Inl TxtRecordTooLong, out3)
         else (case append_character_string [word_of_nat (length value)] value of
                 Inl e \<Rightarrow> (Inl e, out3)
               | Inr buffer \<Rightarrow>
                   (Inr (), append_u16 out3 (word_of_nat (length buffer)) @ buffer)))"

text \<open>\<open>rand_id\<close> is the value of \<open>rand::random()\<close>.\<close>

definition build_query :: "u16 \<Rightarrow> bytes \<Rightarrow> bytes outcome" where
  "build_query rand_id service_name =
     (let out1 = append_u16 [] rand_id;
          out2 = append_u16 out1 0x0;
          out3 = append_u16 out2 0x1;
          out4 = append_u16 (append_u16 (append_u16 out3 0x0) 0x0) 0x0
      in and_then (append_qname out4 service_name)
           (\<lambda>out5. Ret (append_u16 (append_u16 out5 0x0c) 0x01)))"

definition query_response_packet ::
    "u16 \<Rightarrow> bytes \<Rightarrow> bytes list \<Rightarrow> u32 \<Rightarrow> bytes \<Rightarrow> bytes outcome" where
  "query_response_packet qid peer_id records ttl service_name =
     (let out1 = append_u16 (append_u16 [] qid) 0x8400;
          out2 = append_u16 (append_u16 (append_u16 out1 0x0) 0x1) 0x0;
          out3 = append_u16 out2 (word_of_nat (length records))
      in and_then (append_qname out3 service_name)
           (\<lambda>out4.
              let out5 = append_u32 (append_u16 (append_u16 out4 0x000c) 0x0001) ttl;
                  out6 = append_u16 out5 (word_of_nat (length peer_id)) @ peer_id
              in Ret (foldl (@) out6 records)))"

definition build_service_discovery_response ::
    "u16 \<Rightarrow> duration \<Rightarrow> bytes \<Rightarrow> bytes \<Rightarrow> bytes outcome" where
  "build_service_discovery_response qid ttl_d service_name meta_query_service =
     (let ttl = duration_to_secs ttl_d;
          out1 = append_u16 (append_u16 [] qid) 0x8400;
          out2 = append_u16 (append_u16 (append_u16 (append_u16 out1 0x0) 0x1) 0x0) 0x0
      in and_then (append_qname out2 meta_query_service)
           (\<lambda>out3.
              let out4 = append_u32 (append_u16 (append_u16 out3 0x000c) 0x8001) ttl
              in and_then (append_qname [] service_name)
                   (\<lambda>name. Ret (append_u16 out4 (word_of_nat (length name)) @ name))))"

text \<open>
  The random generator is the argument \<open>rnd = (len, sample)\<close>: \<open>len\<close> is the value of
  \<open>gen_range(0..32)\<close> and \<open>sample\<close> the stream of \<open>Alphanumeric\<close> samples.
\<close>

type_synonym peer_rng = "nat \<times> (nat \<Rightarrow> char)"

definition random_string :: "(nat \<Rightarrow> char) \<Rightarrow> nat \<Rightarrow> string" where
  "random_string sample n = map sample [0..<n]"

definition generate_peer_name :: "peer_rng \<Rightarrow> bytes outcome" where
  "generate_peer_name rnd =
     (let peer_name = random_string (snd rnd) (32 + fst rnd)
      in append_qname [] (bytes_of peer_name))"

text \<open>\<open>format!("dnsaddr={}/p2p/{}", addr, peer_id.base58_of())\<close>.\<close>

definition txt_to_send :: "string \<Rightarrow> string \<Rightarrow> string" where
  "txt_to_send addr peer_base58 = ''dnsaddr='' @ addr @ ''/p2p/'' @ peer_base58"

text \<open>
  The loop over the addresses: \<open>pkt\<close> is the call of \<open>query_response_packet\<close> with the
  arguments that do not change, \<open>records\<close> and \<open>packets\<close> are the two accumulators.
\<close>

fun response_loop ::
    "(bytes list \<Rightarrow> bytes outcome) \<Rightarrow> bytes \<Rightarrow> u32 \<Rightarrow> string \<Rightarrow> bytes list \<Rightarrow> bytes list
      \<Rightarrow> string list \<Rightarrow> (bytes list \<times> bytes list) outcome" where
  "response_loop pkt name ttl b58 records packets [] = Ret (records, packets)"
| "response_loop pkt name ttl b58 records packets (addr # rest) =
     (let (res, txt_record) = append_txt_record [] name ttl (txt_to_send addr b58);
          records1 = (case res of Inr _ \<Rightarrow> records @ [txt_record] | Inl e \<Rightarrow> records)
      in if length records1 = MAX_RECORDS_PER_PACKET
         then and_then (pkt records1)
                (\<lambda>p. response_loop pkt name ttl b58 [] (packets @ [p]) rest)
         else response_loop pkt name ttl b58 records1 packets rest)"

text \<open>
  \<open>show_addr\<close> is \<open>Multiaddr\<close>'s \<open>Display\<close> and \<open>base58_of\<close> that of \<open>PeerId\<close>, both libp2p's.
\<close>

definition build_query_response ::
    "('a \<Rightarrow> string) \<Rightarrow> ('p \<Rightarrow> string) \<Rightarrow> peer_rng \<Rightarrow> u16 \<Rightarrow> 'p \<Rightarrow> 'a list \<Rightarrow> duration \<Rightarrow> bytes
      \<Rightarrow> bytes list outcome" where
  "build_query_response show_addr base58_of rnd qid peer_id addresses ttl_d service_name =
     (let ttl = duration_to_secs ttl_d;
          addresses1 = take 65535 addresses
      in and_then (generate_peer_name rnd)
           (\<lambda>peer_name_bytes.
              let pkt = (\<lambda>records. query_response_packet qid peer_name_bytes records ttl service_name)
              in and_then (response_loop pkt peer_name_bytes ttl (base58_of peer_id) [] []
                             (map show_addr addresses1))
                   (\<lambda>(records, packets).
                      and_then
                        (if records \<noteq> [] then and_then (pkt records) (\<lambda>p. Ret (packets @ [p]))
                         else Ret packets)
                        (\<lambda>packets1.
                           if packets1 = [] then and_then (pkt []) (\<lambda>p. Ret (packets1 @ [p]))
                           else Ret packets1))))"

lemma escape_all_append: "escape_all out s = out @ bytes_of (concat (map escape_chr s))"
  by (induction s arbitrary: out) simp_all

lemma foldl_append_concat: "foldl (@) out xs = out @ concat xs"
  by (induction xs arbitrary: out) simp_all

end
