(* ===== verification/DnsWire.thy ===== *)
theory DnsWire
  imports Prelude
begin

unbundle bit_operations_syntax

text \<open>
  The specification the encoder of \<open>dns.rs\<close> is checked against: the wire format of a DNS
  message as RFC 1035 describes it, written as a reader that shares no code with the
  encoder. A reader takes the bytes and gives the value it read with the bytes that follow.
  The locale \<open>wire_codec\<close> is the contract between a writer and its reader.
\<close>

section \<open>The contract of a writer and a reader\<close>

text \<open>Read \<open>n\<close> items one after the other.\<close>

fun read_many :: "(bytes \<Rightarrow> ('a \<times> bytes) option) \<Rightarrow> nat \<Rightarrow> bytes \<Rightarrow> ('a list \<times> bytes) option" where
  "read_many rd 0 bs = Some ([], bs)"
| "read_many rd (Suc n) bs =
     (case rd bs of
        None \<Rightarrow> None
      | Some (x, bs1) \<Rightarrow>
          (case read_many rd n bs1 of
             None \<Rightarrow> None
           | Some (xs, bs2) \<Rightarrow> Some (x # xs, bs2)))"

locale wire_codec =
  fixes wr :: "'a \<Rightarrow> bytes"
    and rd :: "bytes \<Rightarrow> ('a \<times> bytes) option"
    and valid :: "'a \<Rightarrow> bool"
  assumes rd_wr: "valid x \<Longrightarrow> rd (wr x @ rest) = Some (x, rest)"
begin

text \<open>No encoding is a proper prefix of another, so a stream has one reading.\<close>

lemma wr_prefix_free: "valid x \<Longrightarrow> valid y \<Longrightarrow> wr x @ r = wr y @ s \<Longrightarrow> x = y \<and> r = s"
  by (metis rd_wr option.inject prod.inject)

lemma rd_wr_all: "valid x \<Longrightarrow> rd (wr x) = Some (x, [])"
  using rd_wr [of x "[]"] by simp

lemma read_many_concat:
  "list_all valid xs \<Longrightarrow> n = length xs \<Longrightarrow>
     read_many rd n (concat (map wr xs) @ rest) = Some (xs, rest)"
  by (induction xs arbitrary: n) (simp_all add: rd_wr)

end

text \<open>Two codecs in a row are a codec of pairs.\<close>

definition read_pair ::
    "(bytes \<Rightarrow> ('a \<times> bytes) option) \<Rightarrow> (bytes \<Rightarrow> ('b \<times> bytes) option)
      \<Rightarrow> bytes \<Rightarrow> (('a \<times> 'b) \<times> bytes) option" where
  "read_pair rda rdb bs =
     (case rda bs of
        None \<Rightarrow> None
      | Some (x, bs1) \<Rightarrow>
          (case rdb bs1 of None \<Rightarrow> None | Some (y, bs2) \<Rightarrow> Some ((x, y), bs2)))"

locale wire_pair = one: wire_codec wra rda valida + two: wire_codec wrb rdb validb
  for wra :: "'a \<Rightarrow> bytes" and rda valida and wrb :: "'b \<Rightarrow> bytes" and rdb validb
begin

lemma read_pair_write:
  "valida (fst z) \<Longrightarrow> validb (snd z) \<Longrightarrow>
     read_pair rda rdb ((wra (fst z) @ wrb (snd z)) @ rest) = Some (z, rest)"
  by (simp add: read_pair_def one.rd_wr two.rd_wr)

end

sublocale wire_pair \<subseteq> pair: wire_codec
  "\<lambda>z. wra (fst z) @ wrb (snd z)" "read_pair rda rdb" "\<lambda>z. valida (fst z) \<and> validb (snd z)"
  by unfold_locales (simp add: read_pair_write del: append_assoc)

section \<open>Integers\<close>

definition u16_be :: "u16 \<Rightarrow> bytes" where
  "u16_be v = [ucast (drop_bit 8 v), ucast v]"

definition u32_be :: "u32 \<Rightarrow> bytes" where
  "u32_be v = [ucast (drop_bit 24 v), ucast (drop_bit 16 v), ucast (drop_bit 8 v), ucast v]"

fun read_u16 :: "bytes \<Rightarrow> (u16 \<times> bytes) option" where
  "read_u16 (a # b # rest) = Some (push_bit 8 (ucast a) OR ucast b, rest)"
| "read_u16 _ = None"

fun read_u32 :: "bytes \<Rightarrow> (u32 \<times> bytes) option" where
  "read_u32 (a # b # c # d # rest) =
     Some (push_bit 24 (ucast a) OR push_bit 16 (ucast b) OR push_bit 8 (ucast c) OR ucast d, rest)"
| "read_u32 _ = None"

lemma u16_be_bits: "push_bit 8 (ucast (ucast (drop_bit 8 v) :: u8)) OR ucast (ucast v :: u8) = (v :: u16)"
  by (rule bit_word_eqI) (auto simp: bit_simps)

lemma u32_be_bits:
  "push_bit 24 (ucast (ucast (drop_bit 24 v) :: u8)) OR push_bit 16 (ucast (ucast (drop_bit 16 v) :: u8))
     OR push_bit 8 (ucast (ucast (drop_bit 8 v) :: u8)) OR ucast (ucast v :: u8) = (v :: u32)"
proof (rule bit_word_eqI)
  fix n
  assume "n < LENGTH(32)"
  consider "n < 8" | "8 \<le> n \<and> n < 16" | "16 \<le> n \<and> n < 24" | "24 \<le> n" by linarith
  then show "bit (push_bit 24 (ucast (ucast (drop_bit 24 v) :: u8))
      OR push_bit 16 (ucast (ucast (drop_bit 16 v) :: u8))
      OR push_bit 8 (ucast (ucast (drop_bit 8 v) :: u8)) OR ucast (ucast v :: u8) :: u32) n = bit v n"
    using \<open>n < LENGTH(32)\<close> by cases (auto simp: bit_simps)
qed

interpretation wire_u16: wire_codec u16_be read_u16 "\<lambda>_. True"
  by unfold_locales (simp add: u16_be_def u16_be_bits)

interpretation wire_u32: wire_codec u32_be read_u32 "\<lambda>_. True"
  by unfold_locales (simp add: u32_be_def u32_be_bits)

lemma length_u16_be [simp]: "length (u16_be v) = 2"
  by (simp add: u16_be_def)

lemma length_u32_be [simp]: "length (u32_be v) = 4"
  by (simp add: u32_be_def)

section \<open>Names\<close>

text \<open>
  A name is a sequence of labels of 1 to 63 bytes, each after its length, closed by a zero
  byte (section 3.1). The mDNS encoder writes no compression pointers, whose first byte has
  both top bits set; the reader refuses them with every other length above 63.
\<close>

definition label_ok :: "bytes \<Rightarrow> bool" where
  "label_ok l \<longleftrightarrow> 0 < length l \<and> length l < 64"

definition label_wire :: "bytes \<Rightarrow> bytes" where
  "label_wire l = word_of_nat (length l) # l"

definition name_wire :: "bytes list \<Rightarrow> bytes" where
  "name_wire ls = concat (map label_wire ls) @ [0]"

function read_name :: "bytes \<Rightarrow> (bytes list \<times> bytes) option" where
  "read_name [] = None"
| "read_name (n # rest) =
     (if n = 0 then Some ([], rest)
      else if 64 \<le> unat n \<or> length rest < unat n then None
      else (case read_name (drop (unat n) rest) of
              None \<Rightarrow> None
            | Some (ls, rest1) \<Rightarrow> Some (take (unat n) rest # ls, rest1)))"
  by pat_completeness auto
termination
  by (relation "measure length") auto

lemma label_ok_length: "label_ok l \<Longrightarrow> unat (word_of_nat (length l) :: u8) = length l"
  by (simp add: label_ok_def u8_of_nat_inverse)

lemma label_ok_nonzero: "label_ok l \<Longrightarrow> (word_of_nat (length l) :: u8) \<noteq> 0"
  using label_ok_length [of l] by (auto simp: label_ok_def)

interpretation wire_name: wire_codec name_wire read_name "list_all label_ok"
proof
  fix ls rest
  assume "list_all label_ok ls"
  then show "read_name (name_wire ls @ rest) = Some (ls, rest)"
  proof (induction ls)
    case Nil
    then show ?case by (simp add: name_wire_def)
  next
    case (Cons l ls)
    then have l: "label_ok l" and IH: "read_name (name_wire ls @ rest) = Some (ls, rest)"
      by simp_all
    have wire: "name_wire (l # ls) @ rest
        = word_of_nat (length l) # l @ name_wire ls @ rest"
      by (simp add: name_wire_def label_wire_def)
    from l have "length l < 64" by (simp add: label_ok_def)
    with IH show ?case
      by (simp add: wire label_ok_length [OF l] label_ok_nonzero [OF l])
  qed
qed

section \<open>Character strings\<close>

text \<open>A character string is a length byte and that many bytes (section 3.3).\<close>

definition char_string_wire :: "bytes \<Rightarrow> bytes" where
  "char_string_wire s = word_of_nat (length s) # s"

fun read_char_string :: "bytes \<Rightarrow> (bytes \<times> bytes) option" where
  "read_char_string [] = None"
| "read_char_string (n # rest) =
     (if length rest < unat n then None else Some (take (unat n) rest, drop (unat n) rest))"

interpretation wire_char_string: wire_codec char_string_wire read_char_string
  "\<lambda>s. length s < 256"
  by unfold_locales (simp add: char_string_wire_def u8_of_nat_inverse)

text \<open>The data of a TXT record is one or more character strings and nothing else.\<close>

function read_txt_strings :: "bytes \<Rightarrow> bytes list option" where
  "read_txt_strings bs =
     (case read_char_string bs of
        None \<Rightarrow> None
      | Some (s, rest) \<Rightarrow>
          if rest = [] then Some [s]
          else (case read_txt_strings rest of None \<Rightarrow> None | Some ss \<Rightarrow> Some (s # ss)))"
  by pat_completeness auto
termination
proof (relation "measure length")
  fix bs x2 s rest
  assume "read_char_string bs = Some x2" "(s, rest) = x2"
  then show "(rest, bs) \<in> measure length"
    by (cases bs) (auto split: if_splits)
qed simp

declare read_txt_strings.simps [simp del]

lemma read_txt_strings_single:
  "length s < 256 \<Longrightarrow> read_txt_strings (char_string_wire s) = Some [s]"
  by (subst read_txt_strings.simps) (simp add: wire_char_string.rd_wr_all)

section \<open>Resource records and messages\<close>

record dns_question =
  q_name :: "bytes list"
  q_type :: u16
  q_class :: u16

record dns_rr =
  rr_name :: "bytes list"
  rr_type :: u16
  rr_class :: u16
  rr_ttl :: u32
  rr_data :: bytes

record dns_message =
  msg_id :: u16
  msg_flags :: u16
  questions :: "dns_question list"
  answers :: "dns_rr list"
  authorities :: "dns_rr list"
  additionals :: "dns_rr list"

definition question_ok :: "dns_question \<Rightarrow> bool" where
  "question_ok q \<longleftrightarrow> list_all label_ok (q_name q)"

definition question_wire :: "dns_question \<Rightarrow> bytes" where
  "question_wire q = name_wire (q_name q) @ u16_be (q_type q) @ u16_be (q_class q)"

definition read_question :: "bytes \<Rightarrow> (dns_question \<times> bytes) option" where
  "read_question bs =
     (case read_pair read_name (read_pair read_u16 read_u16) bs of
        None \<Rightarrow> None
      | Some ((n, t, c), rest) \<Rightarrow> Some (\<lparr>q_name = n, q_type = t, q_class = c\<rparr>, rest))"

definition rr_ok :: "dns_rr \<Rightarrow> bool" where
  "rr_ok r \<longleftrightarrow> list_all label_ok (rr_name r) \<and> length (rr_data r) < 65536"

definition rr_wire :: "dns_rr \<Rightarrow> bytes" where
  "rr_wire r = name_wire (rr_name r) @ u16_be (rr_type r) @ u16_be (rr_class r)
     @ u32_be (rr_ttl r) @ u16_be (word_of_nat (length (rr_data r))) @ rr_data r"

definition read_rr_data :: "bytes \<Rightarrow> (bytes \<times> bytes) option" where
  "read_rr_data bs =
     (case read_u16 bs of
        None \<Rightarrow> None
      | Some (n, rest) \<Rightarrow>
          if length rest < unat n then None else Some (take (unat n) rest, drop (unat n) rest))"

definition read_rr :: "bytes \<Rightarrow> (dns_rr \<times> bytes) option" where
  "read_rr bs =
     (case read_pair read_name (read_pair read_u16 (read_pair read_u16
             (read_pair read_u32 read_rr_data))) bs of
        None \<Rightarrow> None
      | Some ((n, t, c, ttl, d), rest) \<Rightarrow>
          Some (\<lparr>rr_name = n, rr_type = t, rr_class = c, rr_ttl = ttl, rr_data = d\<rparr>, rest))"

interpretation wire_two_u16: wire_pair u16_be read_u16 "\<lambda>_. True" u16_be read_u16 "\<lambda>_. True" ..

interpretation wire_question_fields: wire_pair name_wire read_name "list_all label_ok"
  "\<lambda>z. u16_be (fst z) @ u16_be (snd z)" "read_pair read_u16 read_u16" "\<lambda>z. True \<and> True" ..

interpretation wire_question: wire_codec question_wire read_question question_ok
proof
  fix q rest
  assume "question_ok q"
  then show "read_question (question_wire q @ rest) = Some (q, rest)"
    using wire_question_fields.pair.rd_wr [of "(q_name q, q_type q, q_class q)" rest]
    by (simp add: read_question_def question_wire_def question_ok_def)
qed

interpretation wire_rr_data: wire_codec "\<lambda>d. u16_be (word_of_nat (length d)) @ d" read_rr_data
  "\<lambda>d. length d < 65536"
  by unfold_locales (simp add: read_rr_data_def wire_u16.rd_wr u16_of_nat_inverse)

interpretation wire_ttl_data: wire_pair u32_be read_u32 "\<lambda>_. True"
  "\<lambda>d. u16_be (word_of_nat (length d)) @ d" read_rr_data "\<lambda>d. length d < 65536" ..

interpretation wire_class_on: wire_pair u16_be read_u16 "\<lambda>_. True"
  "\<lambda>z. u32_be (fst z) @ u16_be (word_of_nat (length (snd z))) @ snd z"
  "read_pair read_u32 read_rr_data" "\<lambda>z. True \<and> length (snd z) < 65536" ..

interpretation wire_type_on: wire_pair u16_be read_u16 "\<lambda>_. True"
  "\<lambda>z. u16_be (fst z) @ u32_be (fst (snd z)) @ u16_be (word_of_nat (length (snd (snd z)))) @ snd (snd z)"
  "read_pair read_u16 (read_pair read_u32 read_rr_data)"
  "\<lambda>z. True \<and> True \<and> length (snd (snd z)) < 65536" ..

interpretation wire_rr_fields: wire_pair name_wire read_name "list_all label_ok"
  "\<lambda>z. u16_be (fst z) @ u16_be (fst (snd z)) @ u32_be (fst (snd (snd z)))
     @ u16_be (word_of_nat (length (snd (snd (snd z))))) @ snd (snd (snd z))"
  "read_pair read_u16 (read_pair read_u16 (read_pair read_u32 read_rr_data))"
  "\<lambda>z. True \<and> True \<and> True \<and> length (snd (snd (snd z))) < 65536" ..

interpretation wire_rr: wire_codec rr_wire read_rr rr_ok
proof
  fix r rest
  assume "rr_ok r"
  then show "read_rr (rr_wire r @ rest) = Some (r, rest)"
    using wire_rr_fields.pair.rd_wr [of "(rr_name r, rr_type r, rr_class r, rr_ttl r, rr_data r)" rest]
    by (simp add: read_rr_def rr_wire_def rr_ok_def)
qed

text \<open>The header (section 4.1.1): id, flags and the four section counts.\<close>

definition header_wire :: "u16 \<Rightarrow> u16 \<Rightarrow> nat \<Rightarrow> nat \<Rightarrow> nat \<Rightarrow> nat \<Rightarrow> bytes" where
  "header_wire i f qd an ns ar =
     u16_be i @ u16_be f @ u16_be (word_of_nat qd) @ u16_be (word_of_nat an)
       @ u16_be (word_of_nat ns) @ u16_be (word_of_nat ar)"

definition message_wire :: "dns_message \<Rightarrow> bytes" where
  "message_wire m =
     header_wire (msg_id m) (msg_flags m) (length (questions m)) (length (answers m))
         (length (authorities m)) (length (additionals m))
       @ concat (map question_wire (questions m)) @ concat (map rr_wire (answers m))
       @ concat (map rr_wire (authorities m)) @ concat (map rr_wire (additionals m))"

definition message_ok :: "dns_message \<Rightarrow> bool" where
  "message_ok m \<longleftrightarrow>
     list_all question_ok (questions m) \<and> list_all rr_ok (answers m)
     \<and> list_all rr_ok (authorities m) \<and> list_all rr_ok (additionals m)
     \<and> length (questions m) < 65536 \<and> length (answers m) < 65536
     \<and> length (authorities m) < 65536 \<and> length (additionals m) < 65536"

text \<open>A message is read to its last byte; bytes left over are an error.\<close>

definition read_message :: "bytes \<Rightarrow> dns_message option" where
  "read_message bs =
     (case read_many read_u16 6 bs of
        Some ([i, f, qd, an, ns, ar], bs1) \<Rightarrow>
          (case read_pair (read_many read_question (unat qd))
                  (read_pair (read_many read_rr (unat an))
                    (read_pair (read_many read_rr (unat ns)) (read_many read_rr (unat ar)))) bs1 of
             Some ((qs, as, nss, ars), []) \<Rightarrow>
               Some \<lparr>msg_id = i, msg_flags = f, questions = qs, answers = as,
                     authorities = nss, additionals = ars\<rparr>
           | _ \<Rightarrow> None)
      | _ \<Rightarrow> None)"

lemma read_header:
  "read_many read_u16 6 (header_wire i f qd an ns ar @ rest) =
     Some ([i, f, word_of_nat qd, word_of_nat an, word_of_nat ns, word_of_nat ar], rest)"
  using wire_u16.read_many_concat
    [of "[i, f, word_of_nat qd, word_of_nat an, word_of_nat ns, word_of_nat ar]" 6 rest]
  by (simp add: header_wire_def)

theorem read_message_wire: "message_ok m \<Longrightarrow> read_message (message_wire m) = Some m"
  using wire_rr.read_many_concat [of "additionals m" _ "[]"]
  by (simp add: read_message_def message_wire_def message_ok_def read_header read_pair_def
      wire_question.read_many_concat wire_rr.read_many_concat u16_of_nat_inverse)

end
