(* ===== verification/DnsCorrect.thy ===== *)
theory DnsCorrect
  imports DnsEncode DnsWire
begin

unbundle bit_operations_syntax

text \<open>
  What \<open>dns.rs\<close> writes is what RFC 1035 reads: each packet builder is proved equal to the
  specification's writer on a message given in full, and to panic exactly on the names that
  have no encoding. The properties read the packets back with \<open>read_message\<close>.
\<close>

section \<open>The append functions write the specification's fields\<close>

named_theorems appends \<open>an encoder's effect on a buffer is an append of a wire field\<close>

lemma append_u16_wire [appends]: "append_u16 out v = out @ u16_be v"
proof -
  have m: "(0xff :: u16) = mask 8" by (simp add: mask_eq_exp_minus_1)
  have "ucast (w AND 0xff) = (ucast w :: u8)" for w :: u16
    unfolding m by (rule bit_word_eqI) (auto simp: bit_simps)
  then show ?thesis by (simp add: append_u16_def u16_be_def)
qed

lemma append_u32_wire [appends]: "append_u32 out v = out @ u32_be v"
proof -
  have m: "(0xff :: u32) = mask 8" by (simp add: mask_eq_exp_minus_1)
  have "ucast (w AND 0xff) = (ucast w :: u8)" for w :: u32
    unfolding m by (rule bit_word_eqI) (auto simp: bit_simps)
  then show ?thesis by (simp add: append_u32_def u32_be_def)
qed

definition labels_of :: "bytes \<Rightarrow> bytes list" where
  "labels_of name = split_on (byte_of (CHR ''.'')) name"

definition service_ok :: "bytes \<Rightarrow> bool" where
  "service_ok name \<longleftrightarrow> list_all label_ok (labels_of name)"

lemma append_labels_wire:
  "append_labels out ls =
     (if list_all label_ok ls then Ret (out @ concat (map label_wire ls)) else Panic)"
  by (induction ls arbitrary: out) (auto simp: label_ok_def label_wire_def)

lemma append_qname_wire [appends]:
  "append_qname out name =
     (if service_ok name then Ret (out @ name_wire (labels_of name)) else Panic)"
  by (simp add: append_qname_def append_labels_wire service_ok_def labels_of_def name_wire_def)

lemma label_ok_iff: "label_ok l \<longleftrightarrow> l \<noteq> [] \<and> \<not> 63 < length l"
  by (auto simp: label_ok_def)

lemma length_name_wire: "length (name_wire ls) = Suc (sum_list (map (\<lambda>l. Suc (length l)) ls))"
  by (simp add: name_wire_def length_concat label_wire_def comp_def)

lemma length_labels_wire [simp]: "length (name_wire (labels_of name)) = length name + 2"
  by (simp add: length_name_wire labels_of_def split_on_sum)

text \<open>
  C31: Encoding a dotted name either panics or appends its RFC 1035 encoding: it panics
  exactly when some dot-separated label is empty or longer than 63 bytes, and otherwise a
  reader recovers the labels and the bytes that follow. The buffer's old content is kept.
\<close>

theorem append_qname_total:
  "(append_qname out name = Panic
      \<longleftrightarrow> (\<exists>l \<in> set (split_on (byte_of (CHR ''.'')) name). length l = 0 \<or> 63 < length l)) \<and>
   (append_qname out name = Ret out1 \<longrightarrow>
      length out1 = length out + length name + 2 \<and> take (length out) out1 = out \<and>
      read_name (drop (length out) out1 @ rest)
        = Some (split_on (byte_of (CHR ''.'')) name, rest))"
proof (intro conjI impI)
  show "append_qname out name = Panic
      \<longleftrightarrow> (\<exists>l \<in> set (split_on (byte_of (CHR ''.'')) name). length l = 0 \<or> 63 < length l)"
    by (auto simp: append_qname_wire service_ok_def labels_of_def list_all_iff label_ok_iff)
next
  assume "append_qname out name = Ret out1"
  then have ok: "service_ok name" and out1: "out1 = out @ name_wire (labels_of name)"
    by (auto simp: append_qname_wire split: if_splits)
  from out1 show "length out1 = length out + length name + 2" "take (length out) out1 = out"
    by simp_all
  from ok show "read_name (drop (length out) out1 @ rest)
        = Some (split_on (byte_of (CHR ''.'')) name, rest)"
    by (simp add: out1 service_ok_def labels_of_def wire_name.rd_wr)
qed

theorem append_qname_total_witness:
  "\<exists>p. append_qname [] (bytes_of ''_p2p._udp.local'') = Ret p \<and>
     read_name p = Some ([bytes_of ''_p2p'', bytes_of ''_udp'', bytes_of ''local''], [])"
proof -
  obtain p where p: "append_qname [] (bytes_of ''_p2p._udp.local'') = Ret p"
    by (simp add: append_qname_def bytes_of_def)
  with append_qname_total [of "[]" "bytes_of ''_p2p._udp.local''" p "[]"] show ?thesis
    by (simp add: bytes_of_def)
qed

section \<open>Queries and service discovery responses\<close>

text \<open>PTR is record type 12, TXT is 16; class 1 is IN, and \<open>0x8001\<close> IN with the cache-flush bit.\<close>

definition query_message :: "u16 \<Rightarrow> bytes \<Rightarrow> dns_message" where
  "query_message i name =
     \<lparr>msg_id = i, msg_flags = 0,
      questions = [\<lparr>q_name = labels_of name, q_type = 12, q_class = 1\<rparr>],
      answers = [], authorities = [], additionals = []\<rparr>"

lemma build_query_wire:
  "build_query i name =
     (if service_ok name then Ret (message_wire (query_message i name)) else Panic)"
  by (simp add: build_query_def appends Let_def message_wire_def query_message_def
      header_wire_def question_wire_def)

lemma query_message_ok: "service_ok name \<Longrightarrow> message_ok (query_message i name)"
  by (simp add: message_ok_def query_message_def question_ok_def service_ok_def)

text \<open>
  For every service name with an encoding, \<open>build_query\<close> returns a packet that the RFC
  1035 reader accepts as one PTR/IN question for that name, with the given transaction id,
  zero flags and no records, and whose length is exactly the capacity the code reserves
  (its debug assertion); for every other name it panics.
\<close>

theorem build_query_reads_back:
  "(build_query i name = Panic \<longleftrightarrow> \<not> service_ok name) \<and>
   (build_query i name = Ret p \<longrightarrow>
      length p = 18 + length name \<and>
      read_message p = Some \<lparr>msg_id = i, msg_flags = 0,
        questions = [\<lparr>q_name = split_on (byte_of (CHR ''.'')) name, q_type = 12, q_class = 1\<rparr>],
        answers = [], authorities = [], additionals = []\<rparr>)"
proof (intro conjI impI)
  show "build_query i name = Panic \<longleftrightarrow> \<not> service_ok name"
    by (simp add: build_query_wire)
next
  assume "build_query i name = Ret p"
  then have ok: "service_ok name" and p: "p = message_wire (query_message i name)"
    by (auto simp: build_query_wire split: if_splits)
  show "length p = 18 + length name"
    by (simp add: p message_wire_def query_message_def header_wire_def question_wire_def)
  from read_message_wire [OF query_message_ok [OF ok]] show "read_message p = Some
      \<lparr>msg_id = i, msg_flags = 0,
        questions = [\<lparr>q_name = split_on (byte_of (CHR ''.'')) name, q_type = 12, q_class = 1\<rparr>],
        answers = [], authorities = [], additionals = []\<rparr>"
    by (simp add: p query_message_def labels_of_def)
qed

lemma p2p_service_ok: "service_ok (bytes_of ''_p2p._udp.local'')"
  by (simp add: service_ok_def labels_of_def bytes_of_def label_ok_def)

theorem build_query_reads_back_witness:
  "\<exists>p. build_query 7 (bytes_of ''_p2p._udp.local'') = Ret p \<and> length p = 33"
proof -
  from p2p_service_ok obtain p where p: "build_query 7 (bytes_of ''_p2p._udp.local'') = Ret p"
    by (simp add: build_query_wire)
  with build_query_reads_back [of 7 "bytes_of ''_p2p._udp.local''" p] have "length p = 33"
    by (auto simp: eq_commute)
  with p show ?thesis by blast
qed

definition discovery_message :: "u16 \<Rightarrow> u32 \<Rightarrow> bytes \<Rightarrow> bytes \<Rightarrow> dns_message" where
  "discovery_message i ttl service meta =
     \<lparr>msg_id = i, msg_flags = 0x8400, questions = [],
      answers = [\<lparr>rr_name = labels_of meta, rr_type = 12, rr_class = 0x8001, rr_ttl = ttl,
                  rr_data = name_wire (labels_of service)\<rparr>],
      authorities = [], additionals = []\<rparr>"

lemma build_service_discovery_wire:
  "build_service_discovery_response i d service meta =
     (if service_ok meta \<and> service_ok service
      then Ret (message_wire (discovery_message i (duration_to_secs d) service meta))
      else Panic)"
  by (simp add: build_service_discovery_response_def appends Let_def message_wire_def
      discovery_message_def header_wire_def rr_wire_def)

text \<open>
  For a service name and a meta query name with encodings (the service name at most
  65533 bytes, so that its length field does not wrap), the answer to a service discovery
  query reads back as one PTR record owned by the meta query name, with the TTL in seconds
  and the service name as its data; its length is the capacity the code reserves.
\<close>

theorem service_discovery_reads_back:
  assumes "service_ok service" "service_ok meta" "length service \<le> 65533"
  shows "\<exists>p. build_service_discovery_response i d service meta = Ret p \<and>
    length p = 26 + length service + length meta \<and>
    (\<exists>a. read_message p = Some \<lparr>msg_id = i, msg_flags = 0x8400, questions = [], answers = [a],
            authorities = [], additionals = []\<rparr> \<and>
         rr_name a = labels_of meta \<and> rr_type a = 12 \<and> rr_class a = 0x8001 \<and>
         rr_ttl a = duration_to_secs d \<and> read_name (rr_data a) = Some (labels_of service, []))"
proof -
  let ?m = "discovery_message i (duration_to_secs d) service meta"
  have ok: "message_ok ?m"
    using assms by (simp add: message_ok_def discovery_message_def rr_ok_def service_ok_def)
  have built: "build_service_discovery_response i d service meta = Ret (message_wire ?m)"
    using assms by (simp add: build_service_discovery_wire)
  have len: "length (message_wire ?m) = 26 + length service + length meta"
    by (simp add: message_wire_def discovery_message_def header_wire_def rr_wire_def)
  have name: "read_name (name_wire (labels_of service)) = Some (labels_of service, [])"
    using assms(1) by (simp add: service_ok_def wire_name.rd_wr_all)
  from read_message_wire [OF ok] built len name show ?thesis
    by (auto simp: discovery_message_def)
qed

theorem service_discovery_reads_back_witness:
  "\<exists>p. build_service_discovery_response 1 5 (bytes_of ''_p2p._udp.local'')
       (bytes_of ''_services._dns-sd._udp.local'') = Ret p \<and> length p = 69"
proof -
  have "service_ok (bytes_of ''_services._dns-sd._udp.local'')"
    by (simp add: service_ok_def labels_of_def bytes_of_def label_ok_def)
  from service_discovery_reads_back [OF p2p_service_ok this, of 1 5] show ?thesis
    by auto
qed

lemma rem_round_up: "0 < r \<Longrightarrow> r < n \<Longrightarrow> (r + (n - 1)) div n = (1 :: nat)"
  by (rule div_nat_eqI) auto

text \<open>
  The TTL written into a record is the duration rounded up to whole seconds and capped
  at the largest 32-bit value, for every duration.
\<close>

theorem duration_to_secs_ceiling:
  "unat (duration_to_secs d) = min ((d + (nanos_per_sec - 1)) div nanos_per_sec) (2 ^ 32 - 1)"
proof -
  have ceil: "(d + (n - 1)) div n = d div n + (if d mod n > 0 then 1 else 0)" if "0 < n" for n :: nat
  proof -
    have "(d + (n - 1)) div n = ((d mod n + (n - 1)) + d div n * n) div n"
      by simp
    also have "\<dots> = d div n + (d mod n + (n - 1)) div n"
      by (rule div_mult_self1) (use that in simp)
    finally have "(d + (n - 1)) div n = d div n + (d mod n + (n - 1)) div n" .
    moreover have "(d mod n + (n - 1)) div n = (if d mod n > 0 then 1 else 0)"
    proof (cases "d mod n > 0")
      case True
      from rem_round_up [OF True mod_less_divisor [OF that]] True show ?thesis
        by (simp only: if_True)
    qed (use that in simp)
    ultimately show ?thesis by simp
  qed
  have small: "unat (word_of_nat m :: u32) = m" if "m \<le> 2 ^ 32 - 1" for m
    using that by (simp add: unat_of_nat take_bit_nat_eq_self)
  have "0 < nanos_per_sec" by (simp add: nanos_per_sec_def)
  then have "unat (duration_to_secs d)
      = min (min ((d + (nanos_per_sec - 1)) div nanos_per_sec) (2 ^ 64 - 1)) (2 ^ 32 - 1)"
    by (simp only: duration_to_secs_def dur_as_secs_def dur_subsec_nanos_def Let_def ceil
        small min.cobounded2)
  then show ?thesis by (simp only: min.assoc) simp
qed

end
