(* ===== verification/MdnsConfig.thy ===== *)
theory MdnsConfig
  imports DnsCorrect
begin

text \<open>
  \<open>src/behaviours/mdns_bhv/config.rs\<close>: the mDNS configuration and its builder methods, and
  what the names it derives are worth to the encoder and to the receiver.
\<close>

record mdns_config =
  cfg_ttl :: duration
  cfg_query_interval :: duration
  cfg_probe_interval :: duration
  cfg_ipv6 :: bool
  cfg_service_name :: bytes
  cfg_service_name_fqdn :: string
  cfg_meta_query_service :: bytes
  cfg_meta_query_service_fqdn :: string

definition mdns_config_default :: mdns_config where
  "mdns_config_default =
     \<lparr>cfg_ttl = dur_from_secs 300, cfg_query_interval = dur_from_secs 3,
      cfg_probe_interval = dur_from_secs 2, cfg_ipv6 = False, cfg_service_name = [],
      cfg_service_name_fqdn = [], cfg_meta_query_service = [],
      cfg_meta_query_service_fqdn = []\<rparr>"

definition config_ttl :: "mdns_config \<Rightarrow> duration \<Rightarrow> mdns_config" where
  "config_ttl self d = self\<lparr>cfg_ttl := d\<rparr>"

definition config_query_interval :: "mdns_config \<Rightarrow> duration \<Rightarrow> mdns_config" where
  "config_query_interval self d = self\<lparr>cfg_query_interval := d\<rparr>"

definition config_probe_interval :: "mdns_config \<Rightarrow> duration \<Rightarrow> mdns_config" where
  "config_probe_interval self d = self\<lparr>cfg_probe_interval := d\<rparr>"

definition config_enable_ipv6 :: "mdns_config \<Rightarrow> mdns_config" where
  "config_enable_ipv6 self = self\<lparr>cfg_ipv6 := True\<rparr>"

definition config_service_name :: "mdns_config \<Rightarrow> string \<Rightarrow> mdns_config" where
  "config_service_name self service_name =
     (let name = (if service_name \<noteq> [] then ''_'' @ service_name @ ''.'' else [])
      in self\<lparr>cfg_service_name := bytes_of (name @ ''_p2p._udp.local''),
              cfg_service_name_fqdn := name @ ''_p2p._udp.local.'',
              cfg_meta_query_service := bytes_of (name @ ''_services._dns-sd._udp.local''),
              cfg_meta_query_service_fqdn := name @ ''_services._dns-sd._udp.local.''\<rparr>)"

section \<open>The derived names\<close>

text \<open>The dotted text of a fully qualified name of plain labels, with its final dot.\<close>

definition fqdn_text :: "bytes list \<Rightarrow> bytes" where
  "fqdn_text ls = concat (map (\<lambda>l. l @ [byte_of (CHR ''.'')]) ls)"

lemma fqdn_text_split: "fqdn_text (split_on (byte_of (CHR ''.'')) name) = name @ [byte_of (CHR ''.'')]"
proof (induction name)
  case Nil
  then show ?case by (simp add: fqdn_text_def)
next
  case (Cons c name)
  then show ?case
    by (cases "split_on (byte_of CHR ''.'') name") (auto simp: fqdn_text_def)
qed

lemma bytes_of_set: "byte_of c \<in> set (bytes_of s) \<longleftrightarrow> c \<in> set s"
  by (auto simp: bytes_of_def)

lemma service_labels:
  assumes "CHR ''.'' \<notin> set name"
  shows "labels_of (bytes_of (CHR ''_'' # name @ CHR ''.'' # suffix))
    = bytes_of (CHR ''_'' # name) # labels_of (bytes_of suffix)"
proof -
  have "byte_of (CHR ''.'') \<notin> set (bytes_of (CHR ''_'' # name))"
    unfolding bytes_of_set using assms by simp
  from split_on_append_sep [OF this, of "bytes_of suffix"] show ?thesis
    by (simp add: labels_of_def) (simp add: bytes_of_def)
qed

lemma suffix_labels:
  "labels_of (bytes_of ''_p2p._udp.local'') = [bytes_of ''_p2p'', bytes_of ''_udp'', bytes_of ''local'']"
  "labels_of (bytes_of ''_services._dns-sd._udp.local'')
     = [bytes_of ''_services'', bytes_of ''_dns-sd'', bytes_of ''_udp'', bytes_of ''local'']"
  by (simp_all add: labels_of_def bytes_of_def)

lemma service_ok_dotted:
  assumes "CHR ''.'' \<notin> set name" and "service_ok (bytes_of suffix)"
  shows "service_ok (bytes_of (CHR ''_'' # name @ CHR ''.'' # suffix)) \<longleftrightarrow> length name \<le> 62"
  using assms(2) by (auto simp: service_ok_def service_labels [OF assms(1)] label_ok_def)

lemma meta_suffix_ok: "service_ok (bytes_of ''_services._dns-sd._udp.local'')"
  by (simp add: service_ok_def suffix_labels label_ok_def)

lemma config_service_name_ok:
  assumes "CHR ''.'' \<notin> set name"
  shows "service_ok (cfg_service_name (config_service_name c name)) \<longleftrightarrow> length name \<le> 62"
    and "service_ok (cfg_meta_query_service (config_service_name c name)) \<longleftrightarrow> length name \<le> 62"
proof -
  have "cfg_service_name (config_service_name c name) =
      bytes_of (if name = [] then ''_p2p._udp.local'' else CHR ''_'' # name @ CHR ''.'' # ''_p2p._udp.local'')"
    "cfg_meta_query_service (config_service_name c name) =
      bytes_of (if name = [] then ''_services._dns-sd._udp.local''
        else CHR ''_'' # name @ CHR ''.'' # ''_services._dns-sd._udp.local'')"
    by (simp_all add: config_service_name_def Let_def del: bytes_of_append)
  then show "service_ok (cfg_service_name (config_service_name c name)) \<longleftrightarrow> length name \<le> 62"
    "service_ok (cfg_meta_query_service (config_service_name c name)) \<longleftrightarrow> length name \<le> 62"
    using service_ok_dotted [OF assms p2p_service_ok] service_ok_dotted [OF assms meta_suffix_ok]
      p2p_service_ok meta_suffix_ok
    by (cases "name = []"; simp)+
qed

text \<open>
  For a configured service name without dots, the query every interface sends at each
  tick panics exactly when the name is longer than 62 bytes, which the configuration does not
  check. Otherwise the query is for a name whose dotted text is the fully qualified name the
  receiving side compares with, and the answer to the meta query can be built as well.
\<close>

theorem service_name_usable:
  assumes "CHR ''.'' \<notin> set name"
  shows "(build_query i (cfg_service_name (config_service_name c name)) = Panic
      \<longleftrightarrow> 62 < length name) \<and>
    (build_service_discovery_response i d (cfg_service_name (config_service_name c name))
        (cfg_meta_query_service (config_service_name c name)) = Panic \<longleftrightarrow> 62 < length name) \<and>
    (build_query i (cfg_service_name (config_service_name c name)) = Ret p \<longrightarrow>
       (\<exists>q. read_message p = Some \<lparr>msg_id = i, msg_flags = 0, questions = [q], answers = [],
               authorities = [], additionals = []\<rparr> \<and>
            fqdn_text (q_name q) = bytes_of (cfg_service_name_fqdn (config_service_name c name))))"
proof -
  let ?c = "config_service_name c name"
  have ok: "service_ok (cfg_service_name ?c) \<longleftrightarrow> length name \<le> 62"
    "service_ok (cfg_meta_query_service ?c) \<longleftrightarrow> length name \<le> 62"
    using config_service_name_ok [OF assms] by simp_all
  have fqdn: "bytes_of (cfg_service_name_fqdn ?c) = cfg_service_name ?c @ [byte_of (CHR ''.'')]"
    by (simp add: config_service_name_def Let_def) (simp add: bytes_of_def)
  have "read_message (message_wire (query_message i (cfg_service_name ?c)))
      = Some (query_message i (cfg_service_name ?c))" if "service_ok (cfg_service_name ?c)"
    using that by (simp add: read_message_wire query_message_ok)
  then show ?thesis
    using fqdn_text_split [of "cfg_service_name ?c"]
    by (auto simp: build_query_wire build_service_discovery_wire ok fqdn query_message_def
        labels_of_def)
qed

theorem service_name_usable_witness:
  "build_query 1 (cfg_service_name (config_service_name mdns_config_default (replicate 63 (CHR ''a''))))
     = Panic"
  using service_name_usable [of "replicate 63 (CHR ''a'')" 1 mdns_config_default] by simp

end
