(* ===== verification/DnsResponse.thy ===== *)
theory DnsResponse
  imports DnsCorrect
begin

text \<open>
  \<open>dns.rs\<close> continued: the TXT records of an address response, their character strings, the
  packing of records into packets, and the sizes.
\<close>

section \<open>Character strings\<close>

definition has_space :: "string \<Rightarrow> bool" where
  "has_space s \<longleftrightarrow> CHR '' '' \<in> set s"

definition has_special :: "string \<Rightarrow> bool" where
  "has_special s \<longleftrightarrow> CHR 0x5C \<in> set s \<or> CHR 0x22 \<in> set s"

definition escaped :: "string \<Rightarrow> string" where
  "escaped s = concat (map escape_chr s)"

text \<open>What \<open>append_character_string\<close> appends for an ASCII string.\<close>

definition char_string_body :: "string \<Rightarrow> string" where
  "char_string_body s = (if has_space s then CHR 0x22 # escaped s @ [CHR 0x22] else s)"

lemma append_character_string_body:
  "append_character_string out s =
     (if is_ascii s then Inr (out @ bytes_of (char_string_body s)) else Inl NonAsciiMultiaddr)"
proof -
  have "list_ex (\<lambda>c. c = CHR '' '') s \<longleftrightarrow> has_space s"
    by (auto simp: has_space_def list_ex_iff)
  then show ?thesis
    by (simp add: append_character_string_def char_string_body_def escape_all_append escaped_def
        Let_def) (simp add: bytes_of_def)
qed

lemma length_escape_chr:
  "length (escape_chr c) = (if c = CHR 0x5C \<or> c = CHR 0x22 then 2 else 1)"
  by (simp add: escape_chr_def)

lemma length_escaped: "length s \<le> length (escaped s) \<and> length (escaped s) \<le> 2 * length s"
  by (induction s) (simp_all add: escaped_def length_escape_chr)

lemma length_escaped_special: "length (escaped s) = length s \<longleftrightarrow> \<not> has_special s"
proof (induction s)
  case Nil
  then show ?case by (simp add: escaped_def has_special_def)
next
  case (Cons c s)
  then show ?case
    using length_escaped [of s] by (auto simp: escaped_def has_special_def length_escape_chr)
qed

lemma escaped_eq_iff: "escaped s = s \<longleftrightarrow> \<not> has_special s"
proof
  assume "escaped s = s"
  then show "\<not> has_special s" using length_escaped_special [of s] by simp
next
  assume "\<not> has_special s"
  then show "escaped s = s"
    by (induction s) (auto simp: escaped_def has_special_def escape_chr_def)
qed

lemma length_char_string_body:
  "length s \<le> length (char_string_body s) \<and> length (char_string_body s) \<le> 2 * length s + 2
   \<and> (length (char_string_body s) = length s \<longleftrightarrow> \<not> has_space s)"
  using length_escaped [of s] by (auto simp: char_string_body_def)

text \<open>
  C37: Decoding what the encoder wrote for an ASCII string gives the string back exactly
  when it has a space and no quote or backslash, or has no space and does not start with a
  quote: the decoder strips the quotes but never undoes the escapes.
\<close>

theorem character_string_round_trip:
  assumes "is_ascii s"
  shows "\<exists>enc. append_character_string [] s = Inr enc \<and>
    (decode_character_string enc = Inr (bytes_of s) \<longleftrightarrow>
       (if has_space s then \<not> has_special s else s = [] \<or> hd s \<noteq> CHR 0x22))"
proof (cases "has_space s")
  case True
  have "decode_character_string (bytes_of (char_string_body s)) = Inr (bytes_of (escaped s))"
    using True by (simp add: decode_character_string_def char_string_body_def bytes_of_def)
  with True assms show ?thesis
    by (simp add: append_character_string_body escaped_eq_iff)
next
  case False
  have "decode_character_string (bytes_of s) = Inr (bytes_of s)
      \<longleftrightarrow> s = [] \<or> hd s \<noteq> CHR 0x22"
    by (cases s) (auto simp: decode_character_string_def bytes_of_def dest: arg_cong [of _ _ length])
  with False assms show ?thesis
    by (simp add: append_character_string_body char_string_body_def)
qed

theorem character_string_round_trip_witness:
  "\<exists>enc. append_character_string [] ''a b'' = Inr enc \<and>
     decode_character_string enc = Inr (bytes_of ''a b'')"
  using character_string_round_trip [of "''a b''"]
  by (simp add: is_ascii_def has_space_def has_special_def)

section \<open>TXT records\<close>

text \<open>The values \<open>append_txt_record\<close> accepts, and the data it writes for one.\<close>

definition accepted :: "string \<Rightarrow> bool" where
  "accepted v \<longleftrightarrow> is_ascii v \<and> length v \<le> MAX_TXT_VALUE_LENGTH"

definition txt_data :: "string \<Rightarrow> bytes" where
  "txt_data v = word_of_nat (length v) # bytes_of (char_string_body v)"

definition txt_rr :: "bytes list \<Rightarrow> u32 \<Rightarrow> string \<Rightarrow> dns_rr" where
  "txt_rr owner ttl v =
     \<lparr>rr_name = owner, rr_type = 16, rr_class = 0x8001, rr_ttl = ttl, rr_data = txt_data v\<rparr>"

lemma length_txt_data: "accepted v \<Longrightarrow> length (txt_data v) \<le> 513"
  using length_char_string_body [of v]
  by (simp add: txt_data_def accepted_def MAX_TXT_VALUE_LENGTH_def)

lemma txt_flags_wire: "[0x00, 0x10, 0x80, 0x01] = u16_be 16 @ u16_be 0x8001"
  by (simp add: u16_be_def)

lemma append_txt_record_wire:
  "append_txt_record [] (name_wire owner) ttl v =
     (if accepted v then (Inr (), rr_wire (txt_rr owner ttl v))
      else (Inl (if MAX_TXT_VALUE_LENGTH < length v then TxtRecordTooLong else NonAsciiMultiaddr),
            name_wire owner @ [0x00, 0x10, 0x80, 0x01] @ u32_be ttl))"
  using txt_flags_wire
  by (simp add: append_txt_record_def Let_def append_character_string_body appends accepted_def
      rr_wire_def txt_rr_def txt_data_def)

lemma read_txt_strings_not_Nil: "read_txt_strings bs \<noteq> Some []"
  by (subst read_txt_strings.simps) (auto split: option.splits)

lemma read_txt_strings_two:
  "read_txt_strings (n # body) = Some [s] \<Longrightarrow> length body = unat n"
  by (subst (asm) read_txt_strings.simps)
    (auto split: if_splits option.splits simp: read_txt_strings_not_Nil)

text \<open>
  An accepted value (ASCII, at most 255 bytes) becomes a well-formed TXT/IN record with
  the owner name and TTL given. Its data reads back as the single string that was put in
  exactly when the value has no space: with a space the length byte still counts the
  unquoted value, so the record does not carry it.
\<close>

theorem txt_record_carries_value:
  assumes "accepted v" and "list_all label_ok owner"
  shows "\<exists>r. append_txt_record [] (name_wire owner) ttl v = (Inr (), rr_wire r) \<and>
    read_rr (rr_wire r @ rest) = Some (r, rest) \<and>
    rr_name r = owner \<and> rr_type r = 16 \<and> rr_class r = 0x8001 \<and> rr_ttl r = ttl \<and>
    (read_txt_strings (rr_data r) = Some [bytes_of v] \<longleftrightarrow> \<not> has_space v)"
proof -
  have small: "length v < 256"
    using assms(1) by (simp add: accepted_def MAX_TXT_VALUE_LENGTH_def)
  have "read_txt_strings (txt_data v) = Some [bytes_of v] \<longleftrightarrow> \<not> has_space v"
  proof
    assume "read_txt_strings (txt_data v) = Some [bytes_of v]"
    then have "length (char_string_body v) = length v"
      using read_txt_strings_two small by (fastforce simp: txt_data_def u8_of_nat_inverse)
    then show "\<not> has_space v" using length_char_string_body [of v] by simp
  next
    assume "\<not> has_space v"
    then have "txt_data v = char_string_wire (bytes_of v)"
      by (simp add: txt_data_def char_string_body_def char_string_wire_def)
    then show "read_txt_strings (txt_data v) = Some [bytes_of v]"
      using small by (simp add: read_txt_strings_single)
  qed
  moreover have "rr_ok (txt_rr owner ttl v)"
    using assms length_txt_data [of v] by (simp add: rr_ok_def txt_rr_def)
  ultimately show ?thesis
    using assms(1)
    by (intro exI [of _ "txt_rr owner ttl v"])
      (simp add: append_txt_record_wire wire_rr.rd_wr, simp add: txt_rr_def)
qed

theorem txt_record_carries_value_witness:
  "\<exists>r. append_txt_record [] (name_wire [bytes_of ''peer'']) 60 ''dnsaddr=x'' = (Inr (), rr_wire r) \<and>
     read_txt_strings (rr_data r) = Some [bytes_of ''dnsaddr=x'']"
proof -
  have "accepted ''dnsaddr=x''" "list_all label_ok [bytes_of ''peer'']"
    by (simp_all add: accepted_def is_ascii_def MAX_TXT_VALUE_LENGTH_def label_ok_def)
  from txt_record_carries_value [OF this, of 60 "[]"] show ?thesis
    by (auto simp: has_space_def)
qed

section \<open>The peer name\<close>

text \<open>What \<open>rand\<close> documents of the two draws: \<open>gen_range(0..32)\<close> and \<open>Alphanumeric\<close>.\<close>

definition alphanumeric :: "char \<Rightarrow> bool" where
  "alphanumeric c \<longleftrightarrow>
     (let n = of_char c :: nat in (48 \<le> n \<and> n \<le> 57) \<or> (65 \<le> n \<and> n \<le> 90) \<or> (97 \<le> n \<and> n \<le> 122))"

lemma alphanumeric_not_dot: "\<forall>i. alphanumeric (f i) \<Longrightarrow> CHR ''.'' = f j \<Longrightarrow> False"
proof -
  assume "\<forall>i. alphanumeric (f i)" "CHR ''.'' = f j"
  then have "alphanumeric (CHR ''.'')" by metis
  then show False by (simp add: alphanumeric_def)
qed

definition rng_ok :: "peer_rng \<Rightarrow> bool" where
  "rng_ok rnd \<longleftrightarrow> fst rnd < 32 \<and> (\<forall>i. alphanumeric (snd rnd i))"

definition peer_label :: "peer_rng \<Rightarrow> bytes" where
  "peer_label rnd = bytes_of (random_string (snd rnd) (32 + fst rnd))"

lemma length_peer_label [simp]: "length (peer_label rnd) = 32 + fst rnd"
  by (simp add: peer_label_def random_string_def)

lemma label_ok_peer_label: "rng_ok rnd \<Longrightarrow> label_ok (peer_label rnd)"
  by (simp add: label_ok_def rng_ok_def)

lemma generate_peer_name_wire:
  assumes "rng_ok rnd"
  shows "generate_peer_name rnd = Ret (name_wire [peer_label rnd])"
proof -
  have "byte_of (CHR ''.'') \<notin> set (peer_label rnd)"
    using assms by (auto simp: peer_label_def random_string_def rng_ok_def bytes_of_def
        dest: alphanumeric_not_dot)
  then have "labels_of (peer_label rnd) = [peer_label rnd]"
    by (simp add: labels_of_def split_on_no_sep)
  with label_ok_peer_label [OF assms] show ?thesis
    by (simp add: generate_peer_name_def appends service_ok_def flip: peer_label_def)
qed

section \<open>Packing records into packets\<close>

fun chunks :: "'a list \<Rightarrow> 'a list list" where
  "chunks [] = []"
| "chunks (x # xs) =
     take MAX_RECORDS_PER_PACKET (x # xs) # chunks (drop (MAX_RECORDS_PER_PACKET - 1) xs)"

lemma concat_chunks [simp]: "concat (chunks xs) = xs"
  by (induction xs rule: chunks.induct) simp_all

lemma chunks_length: "c \<in> set (chunks xs) \<Longrightarrow> 0 < length c \<and> length c \<le> 29"
  by (induction xs rule: chunks.induct) auto

lemma chunks_subset: "c \<in> set (chunks xs) \<Longrightarrow> set c \<subseteq> set xs"
  by (metis concat_chunks UN_upper set_concat)

lemma chunks_full: "length c = 29 \<Longrightarrow> chunks (c @ xs) = c # chunks xs"
  by (cases c) simp_all

lemma chunks_short: "length c < 29 \<Longrightarrow> chunks c = (if c = [] then [] else [c])"
  by (cases c) simp_all

lemma length_chunks: "length (chunks xs) = (length xs + 28) div 29"
proof (induction xs rule: chunks.induct)
  case 1
  then show ?case by simp
next
  case (2 x xs)
  show ?case
  proof (cases "length xs < 28")
    case True
    then have "(length (x # xs) + 28) div 29 = 1"
      by (intro div_nat_eqI) auto
    with True show ?thesis by (simp add: chunks_short)
  next
    case False
    then have "length (x # xs) + 28 = (length xs - 28 + 28) + 29" by simp
    then have "(length (x # xs) + 28) div 29 = Suc ((length xs - 28 + 28) div 29)"
      by (metis div_add_self2 Suc_eq_plus1 zero_neq_numeral)
    with 2 show ?thesis by simp
  qed
qed

text \<open>The packet for one group of records.\<close>

definition response_message ::
    "u16 \<Rightarrow> bytes \<Rightarrow> u32 \<Rightarrow> bytes \<Rightarrow> dns_rr list \<Rightarrow> dns_message" where
  "response_message i peer ttl service rrs =
     \<lparr>msg_id = i, msg_flags = 0x8400, questions = [],
      answers = [\<lparr>rr_name = labels_of service, rr_type = 12, rr_class = 1, rr_ttl = ttl,
                  rr_data = name_wire [peer]\<rparr>],
      authorities = [], additionals = rrs\<rparr>"

lemma query_response_packet_wire:
  "query_response_packet i (name_wire [peer]) (map rr_wire rrs) ttl service =
     (if service_ok service then Ret (message_wire (response_message i peer ttl service rrs))
      else Panic)"
  by (simp add: query_response_packet_def appends Let_def message_wire_def response_message_def
      header_wire_def rr_wire_def foldl_append_concat)

lemma response_message_ok:
  "service_ok service \<Longrightarrow> label_ok peer \<Longrightarrow> list_all rr_ok rrs \<Longrightarrow> length rrs \<le> 29 \<Longrightarrow>
     message_ok (response_message i peer ttl service rrs)"
  by (simp add: message_ok_def response_message_def rr_ok_def service_ok_def length_name_wire
      label_ok_def)

definition txt_values :: "string \<Rightarrow> string list \<Rightarrow> string list" where
  "txt_values b58 addrs = filter accepted (map (\<lambda>a. txt_to_send a b58) addrs)"

text \<open>
  The loop's invariant: with fewer than 29 pending records it returns the packets of the
  full groups, and the records of the last group, of the pending and the new records.
\<close>

lemma response_loop_chunks:
  assumes pkt: "\<And>rrs. pkt (map rr_wire rrs) = Ret (P rrs)"
    and "length rrs < 29"
  shows "\<exists>full last. response_loop pkt (name_wire owner) ttl b58 (map rr_wire rrs) packets addrs
      = Ret (map rr_wire last, packets @ map P full) \<and>
    length last < 29 \<and>
    chunks (rrs @ map (txt_rr owner ttl) (txt_values b58 addrs)) = full @ chunks last"
  using assms(2)
proof (induction addrs arbitrary: rrs packets)
  case Nil
  then show ?case by (intro exI [of _ "[]"] exI [of _ rrs]) (simp add: txt_values_def)
next
  case (Cons a addrs)
  let ?v = "txt_to_send a b58" and ?new = "txt_rr owner ttl"
  show ?case
  proof (cases "accepted ?v")
    case False
    with Cons show ?thesis by (simp add: append_txt_record_wire txt_values_def)
  next
    case acc: True
    let ?rrs = "rrs @ [?new ?v]"
    show ?thesis
    proof (cases "length ?rrs = 29")
      case True
      from Cons.IH [of "[]" "packets @ [P ?rrs]"] obtain full "last" where
        "response_loop pkt (name_wire owner) ttl b58 [] (packets @ [P ?rrs]) addrs
          = Ret (map rr_wire last, (packets @ [P ?rrs]) @ map P full)" "length last < 29"
        "chunks (map ?new (txt_values b58 addrs)) = full @ chunks last"
        by auto
      moreover have "chunks (rrs @ map ?new (txt_values b58 (a # addrs)))
          = ?rrs # chunks (map ?new (txt_values b58 addrs))"
        using chunks_full [OF True] acc by (simp add: txt_values_def)
      ultimately show ?thesis
        using acc True pkt [of ?rrs]
        by (intro exI [of _ "?rrs # full"] exI [of _ "last"]) (simp add: append_txt_record_wire)
    next
      case False
      with Cons.prems have "length ?rrs < 29" by simp
      from Cons.IH [OF this, of packets] acc False show ?thesis
        by (simp add: append_txt_record_wire txt_values_def)
    qed
  qed
qed

definition response_groups :: "u32 \<Rightarrow> bytes \<Rightarrow> string list \<Rightarrow> dns_rr list list" where
  "response_groups ttl peer values =
     (if values = [] then [[]] else chunks (map (txt_rr [peer] ttl) values))"

lemma build_query_response_wire:
  assumes "rng_ok rnd" "service_ok service"
  shows "build_query_response show_addr base58_of rnd i peer_id addresses d service =
    Ret (map (\<lambda>rrs. message_wire (response_message i (peer_label rnd) (duration_to_secs d) service rrs))
      (response_groups (duration_to_secs d) (peer_label rnd)
        (txt_values (base58_of peer_id) (map show_addr (take 65535 addresses)))))"
proof -
  let ?ttl = "duration_to_secs d" and ?p = "peer_label rnd"
  let ?P = "\<lambda>rrs. message_wire (response_message i ?p ?ttl service rrs)"
  let ?pkt = "\<lambda>records. query_response_packet i (name_wire [?p]) records ?ttl service"
  let ?addrs = "map show_addr (take 65535 addresses)" and ?b = "base58_of peer_id"
  have pkt: "?pkt (map rr_wire rrs) = Ret (?P rrs)" for rrs
    using assms(2) by (simp add: query_response_packet_wire)
  obtain full "last" where
    loop: "response_loop ?pkt (name_wire [?p]) ?ttl ?b [] [] ?addrs
      = Ret (map rr_wire last, map ?P full)"
    and short: "length last < 29"
    and eq: "chunks (map (txt_rr [?p] ?ttl) (txt_values ?b ?addrs)) = full @ chunks last"
    using response_loop_chunks [of ?pkt ?P "[]" "[?p]" ?ttl ?b "[]" ?addrs] pkt by auto
  have empty: "txt_values ?b ?addrs = [] \<longleftrightarrow> full = [] \<and> last = []"
    using eq short by (metis append_is_Nil_conv chunks.simps(1) concat.simps(1) concat_chunks map_is_Nil_conv)
  from pkt [of "[]"] pkt [of "last"] loop short eq empty show ?thesis
    by (auto simp: build_query_response_def generate_peer_name_wire [OF assms(1)] Let_def
        response_groups_def chunks_short)
qed

section \<open>The address response as a whole\<close>

lemma response_groups_rrs:
  "list_all accepted values \<Longrightarrow> label_ok peer \<Longrightarrow> rrs \<in> set (response_groups ttl peer values) \<Longrightarrow>
     list_all rr_ok rrs \<and> length rrs \<le> 29"
proof
  assume acc: "list_all accepted values" and peer: "label_ok peer"
    and mem: "rrs \<in> set (response_groups ttl peer values)"
  have "list_all rr_ok (map (txt_rr [peer] ttl) values)"
    using acc peer length_txt_data
    by (fastforce simp: list_all_iff rr_ok_def txt_rr_def)
  moreover from mem have "set rrs \<subseteq> set (map (txt_rr [peer] ttl) values)"
    using chunks_subset [of rrs "map (txt_rr [peer] ttl) values"]
    by (cases "values = []") (simp_all add: response_groups_def)
  ultimately show "list_all rr_ok rrs" by (auto simp: list_all_iff)
  from mem chunks_length show "length rrs \<le> 29"
    by (auto simp: response_groups_def split: if_splits)
qed

lemma txt_values_accepted: "list_all accepted (txt_values b58 addrs)"
  by (simp add: txt_values_def list_all_iff)

text \<open>
  C27: The answer to an address query, for any addresses and any admissible random draws:
  every packet reads back as a response with the query's id and one PTR answer from the
  service name to the random peer name; the TXT records of all packets together are exactly
  one record per address whose text is accepted, of the first 65535 addresses, in order;
  each packet has at most 29 of them and the number of packets is the least possible, but
  one when there is no record.
\<close>

theorem address_response_reads_back:
  assumes "rng_ok rnd" and "service_ok service"
  shows "\<exists>ps msgs.
    build_query_response show_addr base58_of rnd i peer_id addresses d service = Ret ps \<and>
    map read_message ps = map Some msgs \<and>
    list_all (\<lambda>m. msg_id m = i \<and> msg_flags m = 0x8400 \<and> questions m = [] \<and>
        answers m = [\<lparr>rr_name = labels_of service, rr_type = 12, rr_class = 1,
                      rr_ttl = duration_to_secs d, rr_data = name_wire [peer_label rnd]\<rparr>] \<and>
        authorities m = [] \<and> length (additionals m) \<le> 29) msgs \<and>
    concat (map additionals msgs) =
      map (txt_rr [peer_label rnd] (duration_to_secs d))
        (txt_values (base58_of peer_id) (map show_addr (take 65535 addresses))) \<and>
    length ps = max 1 ((length (txt_values (base58_of peer_id)
        (map show_addr (take 65535 addresses))) + 28) div 29)"
proof -
  let ?vs = "txt_values (base58_of peer_id) (map show_addr (take 65535 addresses))"
  let ?gs = "response_groups (duration_to_secs d) (peer_label rnd) ?vs"
  let ?m = "response_message i (peer_label rnd) (duration_to_secs d) service"
  have groups: "list_all rr_ok rrs \<and> length rrs \<le> 29" if "rrs \<in> set ?gs" for rrs
    using that response_groups_rrs txt_values_accepted label_ok_peer_label [OF assms(1)] by blast
  then have "map read_message (map (\<lambda>rrs. message_wire (?m rrs)) ?gs) = map Some (map ?m ?gs)"
    using label_ok_peer_label [OF assms(1)] assms(2)
    by (auto simp: read_message_wire response_message_ok)
  moreover have "concat (map additionals (map ?m ?gs)) = concat ?gs"
    by (simp add: response_message_def comp_def)
  moreover have "concat ?gs = map (txt_rr [peer_label rnd] (duration_to_secs d)) ?vs"
    by (simp add: response_groups_def)
  moreover have "length ?gs = max 1 ((length ?vs + 28) div 29)"
  proof (cases "?vs = []")
    case False
    then have "1 \<le> (length ?vs + 28) div 29"
      by (cases ?vs) (simp_all add: div_greater_zero_iff Suc_le_eq)
    with False show ?thesis by (simp add: response_groups_def length_chunks)
  qed (simp add: response_groups_def)
  ultimately show ?thesis
    using groups
    by (intro exI [of _ "map (\<lambda>rrs. message_wire (?m rrs)) ?gs"] exI [of _ "map ?m ?gs"] conjI)
      (simp_all add: build_query_response_wire [OF assms] list_all_iff,
       simp add: response_message_def)
qed

definition sample_rng :: peer_rng where
  "sample_rng = (31, \<lambda>_. CHR ''a'')"

lemma sample_rng_ok: "rng_ok sample_rng"
  by (simp add: rng_ok_def sample_rng_def alphanumeric_def)

theorem address_response_reads_back_witness:
  "\<exists>p m. build_query_response (\<lambda>a. a) (\<lambda>b. b) sample_rng 7 ''12D3'' [''/ip4/1.2.3.4/tcp/5000''] 60
      (bytes_of ''_p2p._udp.local'') = Ret [p] \<and>
    read_message p = Some m \<and> msg_id m = 7 \<and> length (additionals m) = 1"
proof -
  have vs: "txt_values ''12D3'' [''/ip4/1.2.3.4/tcp/5000'']
      = [''dnsaddr=/ip4/1.2.3.4/tcp/5000/p2p/12D3'']"
    by (simp add: txt_values_def txt_to_send_def accepted_def is_ascii_def MAX_TXT_VALUE_LENGTH_def)
  from address_response_reads_back [OF sample_rng_ok p2p_service_ok, of "\<lambda>a. a" "\<lambda>b. b" 7 "''12D3''"
      "[''/ip4/1.2.3.4/tcp/5000'']" 60]
  obtain ps msgs where
    ps: "build_query_response (\<lambda>a. a) (\<lambda>b. b) sample_rng 7 ''12D3'' [''/ip4/1.2.3.4/tcp/5000''] 60
      (bytes_of ''_p2p._udp.local'') = Ret ps"
    and msgs: "map read_message ps = map Some msgs" "list_all (\<lambda>m. msg_id m = 7) msgs"
      "length (concat (map additionals msgs)) = 1" "length ps = 1"
    by (auto simp: vs list_all_iff)
  from msgs(4) obtain p where "ps = [p]" by (auto simp: length_Suc_conv)
  with ps msgs show ?thesis by (cases msgs) auto
qed

section \<open>Sizes\<close>

lemma length_txt_rr:
  "\<not> has_space v \<Longrightarrow> length (rr_wire (txt_rr [peer_label rnd] ttl v)) = 45 + fst rnd + length v"
  by (simp add: rr_wire_def txt_rr_def txt_data_def char_string_body_def length_name_wire)

text \<open>
  C32: The exact size of a single-packet address response whose values have no space: 58
  bytes, the service name and the drawn length, plus, for each record, 45 bytes, the drawn
  length and the value. So a record is larger than \<open>MAX_TXT_RECORD_SIZE\<close> as soon as its
  value and the drawn length exceed 255 together; the witness is a packet of 29 records
  that is larger than \<open>MAX_PACKET_SIZE\<close>.
\<close>

theorem response_packet_size:
  assumes "rng_ok rnd" "service_ok service"
    and "vs = txt_values (base58_of peer_id) (map show_addr (take 65535 addresses))"
    and "length vs \<le> 29" and "list_all (\<lambda>v. \<not> has_space v) vs"
  shows "\<exists>p. build_query_response show_addr base58_of rnd i peer_id addresses d service = Ret [p] \<and>
    length p = 58 + length service + fst rnd
      + sum_list (map (\<lambda>v. 45 + fst rnd + length v) vs)"
proof -
  let ?rr = "txt_rr [peer_label rnd] (duration_to_secs d)"
  have "response_groups (duration_to_secs d) (peer_label rnd) vs = [map ?rr vs]"
    using assms(4) chunks_full [of "map ?rr vs" "[]"]
    by (cases "length vs = 29") (auto simp: response_groups_def chunks_short)
  moreover have "length (concat (map rr_wire (map ?rr vs)))
      = sum_list (map (\<lambda>v. 45 + fst rnd + length v) vs)"
    using assms(5) by (induction vs) (simp_all add: length_txt_rr)
  moreover have "length (name_wire [peer_label rnd]) = 34 + fst rnd"
    by (simp add: length_name_wire)
  ultimately show ?thesis
    using assms(3)
    by (simp add: build_query_response_wire [OF assms(1,2)] message_wire_def response_message_def
        header_wire_def rr_wire_def)
qed

theorem response_packet_size_witness:
  "\<exists>p. build_query_response (\<lambda>a. a) (\<lambda>b. b) sample_rng 7 ''x''
      (replicate 29 (replicate 241 (CHR ''a''))) 60 (bytes_of ''_p2p._udp.local'') = Ret [p]
    \<and> MAX_PACKET_SIZE < length p"
proof -
  let ?a = "replicate 241 (CHR ''a'')"
  have long: "accepted (txt_to_send ?a ''x'')" "\<not> has_space (txt_to_send ?a ''x'')"
    "length (txt_to_send ?a ''x'') = 255"
    by (simp_all add: accepted_def txt_to_send_def is_ascii_def MAX_TXT_VALUE_LENGTH_def
        has_space_def list_all_iff)
  then have vs: "txt_values ''x'' (map (\<lambda>a. a) (take 65535 (replicate 29 ?a)))
      = replicate 29 (txt_to_send ?a ''x'')"
    by (simp add: txt_values_def filter_replicate)
  from response_packet_size [where base58_of = "\<lambda>b. b" and show_addr = "\<lambda>a. a" and i = 7 and d = 60,
      OF sample_rng_ok p2p_service_ok vs [symmetric]] long
  show ?thesis
    by (auto simp: list_all_iff sum_list_replicate sample_rng_def MAX_PACKET_SIZE_def)
qed

end
