(* ===== verification/AddrLib.thy ===== *)
theory AddrLib
  imports Prelude
begin

text \<open>
  What the sources use of libp2p's \<open>Multiaddr\<close>, \<open>Protocol\<close> and \<open>PeerId\<close> and of the standard
  library's addresses. The types \<open>'a\<close> of multiaddresses and \<open>'i\<close> of peer ids and the
  operations on them are libp2p's: they are the fields of an \<open>addr_lib\<close>, the first argument
  of the definitions that call them. \<open>addr_lib_ok\<close> names the documented behaviour that some
  properties assume of them.
\<close>

section \<open>Addresses of the standard library\<close>

datatype ip_addr = V4 u32 | V6 "128 word"

fun is_ipv4 :: "ip_addr \<Rightarrow> bool" where
  "is_ipv4 (V4 _) = True"
| "is_ipv4 (V6 _) = False"

fun is_ipv6 :: "ip_addr \<Rightarrow> bool" where
  "is_ipv6 (V4 _) = False"
| "is_ipv6 (V6 _) = True"

text \<open>\<open>127.0.0.0/8\<close> and \<open>::1\<close>.\<close>

fun ip_is_loopback :: "ip_addr \<Rightarrow> bool" where
  "ip_is_loopback (V4 a) = (drop_bit 24 a = 127)"
| "ip_is_loopback (V6 a) = (a = 1)"

record sock_addr =
  ip :: ip_addr
  port :: u16

section \<open>Multiaddresses\<close>

text \<open>The protocols the sources name; the others are \<open>OtherProtocol\<close> with their text.\<close>

datatype 'i protocol =
    Ip4 u32
  | Ip6 "128 word"
  | Tcp u16
  | Udp u16
  | P2p 'i
  | P2pCircuit
  | OtherProtocol string

fun protocol_of_ip :: "ip_addr \<Rightarrow> 'i protocol" where
  "protocol_of_ip (V4 a) = Ip4 a"
| "protocol_of_ip (V6 a) = Ip6 a"

record ('a, 'i) addr_lib =
  ma_parse :: "string \<Rightarrow> 'a option"
  ma_show :: "'a \<Rightarrow> string"
  ma_empty :: 'a
  ma_with :: "'a \<Rightarrow> 'i protocol \<Rightarrow> 'a"
  ma_pop :: "'a \<Rightarrow> 'i protocol option \<times> 'a"
  ma_iter :: "'a \<Rightarrow> 'i protocol list"
  ma_ends_with :: "'a \<Rightarrow> 'a \<Rightarrow> bool"
  pid_base58 :: "'i \<Rightarrow> string"
  pid_parse :: "string \<Rightarrow> 'i option"

text \<open>
  A multiaddress is a sequence of protocols that \<open>iter\<close> lists, \<open>with\<close> extends, \<open>pop\<close>
  shortens and \<open>ends_with\<close> compares by its end.
\<close>

definition addr_lib_ok :: "('a, 'i) addr_lib \<Rightarrow> bool" where
  "addr_lib_ok L \<longleftrightarrow>
     ma_iter L (ma_empty L) = [] \<and>
     (\<forall>a p. ma_iter L (ma_with L a p) = ma_iter L a @ [p]) \<and>
     (\<forall>a p. ma_pop L (ma_with L a p) = (Some p, a)) \<and>
     (\<forall>a. fst (ma_pop L a) = (if ma_iter L a = [] then None else Some (last (ma_iter L a)))) \<and>
     (\<forall>a b. ma_ends_with L a b \<longleftrightarrow> (\<exists>pre. ma_iter L a = pre @ ma_iter L b))"

text \<open>
  A concrete library, for witnesses: an address is the list of its protocols. Its text is
  not libp2p's, but a printed list of tokens that it parses back.
\<close>

definition list_pop :: "'i protocol list \<Rightarrow> 'i protocol option \<times> 'i protocol list" where
  "list_pop a = (if a = [] then (None, []) else (Some (last a), butlast a))"

definition list_lib ::
    "(string \<Rightarrow> 'i protocol list option) \<Rightarrow> ('i protocol list \<Rightarrow> string) \<Rightarrow> ('i \<Rightarrow> string)
      \<Rightarrow> (string \<Rightarrow> 'i option) \<Rightarrow> ('i protocol list, 'i) addr_lib" where
  "list_lib parse print pid_text pid_of =
     \<lparr>ma_parse = parse, ma_show = print, ma_empty = [], ma_with = (\<lambda>a p. a @ [p]),
      ma_pop = list_pop, ma_iter = (\<lambda>a. a),
      ma_ends_with = (\<lambda>a b. take (length b) (rev a) = rev b),
      pid_base58 = pid_text, pid_parse = pid_of\<rparr>"

lemma ends_with_iff: "take (length b) (rev a) = rev b \<longleftrightarrow> (\<exists>pre. a = pre @ b)"
proof
  assume eq: "take (length b) (rev a) = rev b"
  have "rev a = rev b @ drop (length b) (rev a)"
    using append_take_drop_id [of "length b" "rev a"] eq by simp
  then have "a = rev (drop (length b) (rev a)) @ b"
    by (metis rev_append rev_rev_ident)
  then show "\<exists>pre. a = pre @ b" by blast
qed auto

lemma list_lib_ok [simp]: "addr_lib_ok (list_lib parse print pid_text pid_of)"
  by (simp add: addr_lib_ok_def list_lib_def list_pop_def ends_with_iff)

end
