(* ===== verification/MdnsQuery.thy ===== *)
theory MdnsQuery
  imports MdnsConfig DnsResponse AddrLib
begin

text \<open>
  \<open>src/behaviours/mdns_bhv/iface/query.rs\<close>: classifying a received packet and reading the
  discovered peers out of a response. The DNS parser is hickory's and is an argument: the
  records \<open>hk_message\<close> and \<open>hk_record\<close> hold what the sources read of its \<open>Message\<close> and
  \<open>Record\<close>, \<open>dns_lib\<close> the operations.
\<close>

section \<open>The parser's interface\<close>

datatype 'n rdata = PTR 'n | TXT "bytes list" | OtherData

record 'n hk_record =
  hk_name :: 'n
  hk_data :: "'n rdata option"
  hk_ttl :: u32

record 'n hk_message =
  hk_id :: u16
  hk_queries :: "'n list"
  hk_answers :: "'n hk_record list"
  hk_additionals :: "'n hk_record list"

record ('e, 'n) dns_lib =
  from_vec :: "bytes \<Rightarrow> 'e + 'n hk_message"
  to_utf8 :: "'n \<Rightarrow> string"
  name_to_string :: "'n \<Rightarrow> string"
  name_eq :: "'n \<Rightarrow> 'n \<Rightarrow> bool"

section \<open>Received packets\<close>

record mdns_query =
  mq_from :: sock_addr
  mq_query_id :: u16

record mdns_service_discovery =
  sd_from :: sock_addr
  sd_query_id :: u16

record ('a, 'i) mdns_peer =
  addrs :: "'a list"
  peer_id :: 'i
  peer_ttl :: u32

record ('a, 'i) mdns_response =
  peers :: "('a, 'i) mdns_peer list"
  resp_from :: sock_addr

datatype ('a, 'i) mdns_packet =
    Query mdns_query
  | Response "('a, 'i) mdns_response"
  | ServiceDiscovery mdns_service_discovery

text \<open>
  The closure of \<open>MdnsPeer::new\<close> over one character string, up to the peer id: the prefix
  \<open>dnsaddr=\<close>, valid UTF-8, a multiaddress, and a last protocol \<open>/p2p\<close>, which is popped.
\<close>

definition read_dnsaddr :: "('a, 'i) addr_lib \<Rightarrow> bytes \<Rightarrow> ('i \<times> 'a) option" where
  "read_dnsaddr L txt =
     (case decode_character_string txt of
        Inl _ \<Rightarrow> None
      | Inr addr \<Rightarrow>
          if \<not> starts_with addr (bytes_of ''dnsaddr='') then None
          else (case from_utf8 (drop 8 addr) of
                  None \<Rightarrow> None
                | Some text \<Rightarrow>
                    (case ma_parse L text of
                       None \<Rightarrow> None
                     | Some ma \<Rightarrow>
                         (case ma_pop L ma of
                            (Some (P2p pid), ma1) \<Rightarrow> Some (pid, ma1)
                          | _ \<Rightarrow> None))))"

text \<open>The iterator: \<open>my_peer_id\<close> is set by the first address and filters the others.\<close>

fun collect_addrs ::
    "('a, 'i) addr_lib \<Rightarrow> 'i option \<Rightarrow> bytes list \<Rightarrow> 'i option \<times> 'a list" where
  "collect_addrs L my_peer_id [] = (my_peer_id, [])"
| "collect_addrs L my_peer_id (txt # rest) =
     (case read_dnsaddr L txt of
        None \<Rightarrow> collect_addrs L my_peer_id rest
      | Some (pid, addr) \<Rightarrow>
          (case my_peer_id of
             Some p \<Rightarrow>
               if pid \<noteq> p then collect_addrs L my_peer_id rest
               else (let (my, as) = collect_addrs L my_peer_id rest in (my, addr # as))
           | None \<Rightarrow>
               (let (my, as) = collect_addrs L (Some pid) rest in (my, addr # as))))"

definition txt_strings_of ::
    "('e, 'n) dns_lib \<Rightarrow> 'n hk_message \<Rightarrow> 'n \<Rightarrow> bytes list" where
  "txt_strings_of D packet record_value =
     concat (List.map_filter
       (\<lambda>add_record.
          if \<not> name_eq D (hk_name add_record) record_value then None
          else (case hk_data add_record of Some (TXT txt) \<Rightarrow> Some txt | _ \<Rightarrow> None))
       (hk_additionals packet))"

definition mdns_peer_new ::
    "('e, 'n) dns_lib \<Rightarrow> ('a, 'i) addr_lib \<Rightarrow> 'n hk_message \<Rightarrow> 'n \<Rightarrow> u32
      \<Rightarrow> ('a, 'i) mdns_peer option" where
  "mdns_peer_new D L packet record_value ttl =
     (let (my_peer_id, as) = collect_addrs L None (txt_strings_of D packet record_value)
      in map_option (\<lambda>p. \<lparr>addrs = as, peer_id = p, peer_ttl = ttl\<rparr>) my_peer_id)"

definition mdns_response_new ::
    "('e, 'n) dns_lib \<Rightarrow> ('a, 'i) addr_lib \<Rightarrow> 'n hk_message \<Rightarrow> sock_addr \<Rightarrow> string
      \<Rightarrow> ('a, 'i) mdns_response" where
  "mdns_response_new D L packet from service_name_fqdn =
     \<lparr>peers = List.map_filter
        (\<lambda>record.
           if name_to_string D (hk_name record) \<noteq> service_name_fqdn then None
           else (case hk_data record of
                   Some (PTR record_value) \<Rightarrow>
                     mdns_peer_new D L packet record_value (hk_ttl record)
                 | _ \<Rightarrow> None))
        (hk_answers packet),
      resp_from = from\<rparr>"

definition new_from_bytes ::
    "('e, 'n) dns_lib \<Rightarrow> ('a, 'i) addr_lib \<Rightarrow> bytes \<Rightarrow> sock_addr \<Rightarrow> string \<Rightarrow> string
      \<Rightarrow> 'e + ('a, 'i) mdns_packet option" where
  "new_from_bytes D L buf from service_name_fqdn meta_query_service_fqdn =
     (case from_vec D buf of
        Inl e \<Rightarrow> Inl e
      | Inr packet \<Rightarrow>
          if hk_queries packet = []
          then Inr (Some (Response (mdns_response_new D L packet from service_name_fqdn)))
          else if list_ex (\<lambda>q. to_utf8 D q = service_name_fqdn) (hk_queries packet)
          then Inr (Some (Query \<lparr>mq_from = from, mq_query_id = hk_id packet\<rparr>))
          else if list_ex (\<lambda>q. to_utf8 D q = meta_query_service_fqdn) (hk_queries packet)
          then Inr (Some (ServiceDiscovery \<lparr>sd_from = from, sd_query_id = hk_id packet\<rparr>))
          else Inr None)"

definition peer_duration :: "('a, 'i) mdns_peer \<Rightarrow> duration" where
  "peer_duration p = dur_from_secs (ucast (peer_ttl p))"

definition observed_address :: "('a, 'i) addr_lib \<Rightarrow> ('a, 'i) mdns_response \<Rightarrow> 'a" where
  "observed_address L r =
     (let obs_ip = protocol_of_ip (ip (resp_from r));
          obs_port = Udp (port (resp_from r))
      in ma_with L (ma_with L (ma_empty L) obs_ip) obs_port)"

text \<open>
  \<open>translate\<close> is libp2p's \<open>address_translation\<close>. The sum of the clock and the TTL can
  panic.
\<close>

fun discover_peers ::
    "('a \<Rightarrow> 'a option) \<Rightarrow> instant \<Rightarrow> 'i \<Rightarrow> ('a, 'i) mdns_peer list
      \<Rightarrow> ('i \<times> 'a \<times> instant) list outcome" where
  "discover_peers translate_observed now local_peer_id [] = Ret []"
| "discover_peers translate_observed now local_peer_id (peer # rest) =
     (if peer_id peer = local_peer_id
      then discover_peers translate_observed now local_peer_id rest
      else and_then (inst_add now (peer_duration peer))
        (\<lambda>new_expiration.
           let found = List.map_filter
                 (\<lambda>address. map_option (\<lambda>new_addr. (peer_id peer, new_addr, new_expiration))
                    (translate_observed address)) (addrs peer)
           in and_then (discover_peers translate_observed now local_peer_id rest)
                (\<lambda>more. Ret (found @ more))))"

definition extract_discovered ::
    "('a, 'i) addr_lib \<Rightarrow> ('a \<Rightarrow> 'a \<Rightarrow> 'a option) \<Rightarrow> ('a, 'i) mdns_response \<Rightarrow> instant \<Rightarrow> 'i
      \<Rightarrow> ('i \<times> 'a \<times> instant) list outcome" where
  "extract_discovered L translate r now local_peer_id =
     discover_peers (\<lambda>address. translate address (observed_address L r)) now local_peer_id (peers r)"

section \<open>One peer per record\<close>

lemma collect_addrs_some:
  "collect_addrs L (Some p) txts =
     (Some p, map snd (filter (\<lambda>x. fst x = p) (List.map_filter (read_dnsaddr L) txts)))"
  by (induction txts) (auto simp: List.map_filter_def split: option.splits prod.splits)

lemma collect_addrs_none:
  "collect_addrs L None txts =
     (case List.map_filter (read_dnsaddr L) txts of
        [] \<Rightarrow> (None, [])
      | (p, a) # rest \<Rightarrow> (Some p, a # map snd (filter (\<lambda>x. fst x = p) rest)))"
  by (induction txts)
    (auto simp: List.map_filter_def collect_addrs_some split: option.splits prod.splits)

lemma peer_of_first_address_list:
  "mdns_peer_new D L packet record_value ttl =
     (let found = List.map_filter (read_dnsaddr L) (txt_strings_of D packet record_value)
      in if found = [] then None
         else Some \<lparr>addrs = [a. (p, a) \<leftarrow> found, p = fst (hd found)],
                    peer_id = fst (hd found), peer_ttl = ttl\<rparr>)"
proof -
  have sel: "map snd (filter (\<lambda>x. fst x = p) xs) = [a. (q, a) \<leftarrow> xs, q = p]" for p :: 'b and xs
    by (induction xs) auto
  show ?thesis
    by (simp add: mdns_peer_new_def collect_addrs_none Let_def sel split: list.splits prod.splits)
qed

text \<open>
  The peer read from a pointer record: with the well-formed \<open>dnsaddr\<close> strings of the TXT
  records that the pointer names, in order, as pairs of peer id and address, there is a peer
  exactly when the list is not empty; it has the first pair's id, the addresses of exactly
  the pairs with that id, in order, so at least one, and the record's TTL.
\<close>

theorem peer_of_first_address:
  "mdns_peer_new D L packet record_value ttl =
     (let found = List.map_filter (read_dnsaddr L) (txt_strings_of D packet record_value)
      in if found = [] then None
         else Some \<lparr>addrs = [a. (p, a) \<leftarrow> found, p = fst (hd found)],
                    peer_id = fst (hd found), peer_ttl = ttl\<rparr>)"
  by (rule peer_of_first_address_list)

section \<open>Discovered addresses\<close>

lemma peer_duration_eq: "peer_duration p = unat (peer_ttl p) * nanos_per_sec"
proof -
  have "unat (peer_ttl p) < 2 ^ 32"
    using unsigned_less [of "peer_ttl p", where ?'a = nat] by simp
  then show ?thesis
    by (simp add: peer_duration_def dur_from_secs_def unsigned_ucast_eq take_bit_nat_eq_self)
qed

lemma peer_duration_le: "peer_duration p \<le> (2 ^ 32 - 1) * nanos_per_sec"
proof -
  have "unat (peer_ttl p) \<le> 2 ^ 32 - 1"
    using unsigned_less [of "peer_ttl p", where ?'a = nat] by simp
  then show ?thesis by (simp add: peer_duration_eq)
qed

lemma discover_peers_list:
  "now + (2 ^ 32 - 1) * nanos_per_sec \<le> inst_max \<Longrightarrow>
   discover_peers tr now local ps = Ret (concat (map
     (\<lambda>p. List.map_filter (\<lambda>a. map_option (\<lambda>b. (peer_id p, b, now + peer_duration p)) (tr a)) (addrs p))
     (filter (\<lambda>p. peer_id p \<noteq> local) ps)))"
proof (induction ps)
  case Nil
  then show ?case by simp
next
  case (Cons p ps)
  with peer_duration_le [of p] show ?case by (simp add: inst_add_def)
qed

text \<open>
  C28: What a response adds to the discovered list, at any clock reading that leaves room for
  the largest TTL: reading it does not panic, and the entries are exactly, in order, the
  translations of the addresses of the peers other than the local one, each with its
  record's expiry.
\<close>

theorem extract_discovered_exact:
  assumes "now + (2 ^ 32 - 1) * nanos_per_sec \<le> inst_max"
  shows "extract_discovered L translate r now local = Ret (concat (map
      (\<lambda>p. List.map_filter
        (\<lambda>a. map_option (\<lambda>b. (peer_id p, b, now + unat (peer_ttl p) * nanos_per_sec))
           (translate a (observed_address L r))) (addrs p))
      (filter (\<lambda>p. peer_id p \<noteq> local) (peers r))))"
  by (simp add: extract_discovered_def discover_peers_list [OF assms] peer_duration_eq)

theorem extract_discovered_exact_witness:
  "extract_discovered (list_lib (\<lambda>_. None) (\<lambda>_. []) (\<lambda>_. []) (\<lambda>_. None)) (\<lambda>a obs. Some (take 1 obs @ drop 1 a))
     \<lparr>peers = [\<lparr>addrs = [[Ip4 7, Tcp 5000]], peer_id = (1 :: nat), peer_ttl = 60\<rparr>,
               \<lparr>addrs = [[Ip4 8]], peer_id = 2, peer_ttl = 60\<rparr>],
      resp_from = \<lparr>ip = V4 9, port = 5353\<rparr>\<rparr> 10 2
   = Ret [(1, [Ip4 9, Tcp 5000], 60000000010)]"
  by (subst extract_discovered_exact)
    (simp_all add: inst_max_def nanos_per_sec_def observed_address_def list_lib_def
      List.map_filter_def)

end
