(* ===== verification/MdnsRoundTrip.thy ===== *)
theory MdnsRoundTrip
  imports MdnsQuery
begin

text \<open>
  The two sides of address discovery together: the packets one node's
  \<open>build_query_response\<close> writes, read by another node's \<open>MdnsPacket::new_from_bytes\<close>. The
  parser's argument is the RFC 1035 reader of \<open>DnsWire\<close>.
\<close>

section \<open>The reference reader as a parser\<close>

definition wire_rdata :: "dns_rr \<Rightarrow> bytes list rdata option" where
  "wire_rdata r =
     (if rr_type r = 12
      then (case read_name (rr_data r) of Some (ls, []) \<Rightarrow> Some (PTR ls) | _ \<Rightarrow> None)
      else if rr_type r = 16
      then (case read_txt_strings (rr_data r) of Some ss \<Rightarrow> Some (TXT ss) | None \<Rightarrow> None)
      else Some OtherData)"

definition wire_record :: "dns_rr \<Rightarrow> bytes list hk_record" where
  "wire_record r = \<lparr>hk_name = rr_name r, hk_data = wire_rdata r, hk_ttl = rr_ttl r\<rparr>"

definition wire_parse :: "bytes \<Rightarrow> unit + bytes list hk_message" where
  "wire_parse bs =
     (case read_message bs of
        None \<Rightarrow> Inl ()
      | Some m \<Rightarrow>
          if list_all (\<lambda>r. wire_rdata r \<noteq> None) (answers m @ authorities m @ additionals m)
          then Inr \<lparr>hk_id = msg_id m, hk_queries = map q_name (questions m),
                    hk_answers = map wire_record (answers m),
                    hk_additionals = map wire_record (additionals m)\<rparr>
          else Inl ())"

definition wire_lib :: "(unit, bytes list) dns_lib" where
  "wire_lib =
     \<lparr>from_vec = wire_parse, to_utf8 = (\<lambda>n. text_of (fqdn_text n)),
      name_to_string = (\<lambda>n. text_of (fqdn_text n)), name_eq = (=)\<rparr>"

section \<open>One packet\<close>

lemma wire_rdata_txt:
  "accepted v \<Longrightarrow> \<not> has_space v \<Longrightarrow> wire_rdata (txt_rr owner ttl v) = Some (TXT [bytes_of v])"
  by (simp add: wire_rdata_def txt_rr_def txt_data_def char_string_body_def accepted_def
      MAX_TXT_VALUE_LENGTH_def read_txt_strings_single flip: char_string_wire_def
      length_bytes_of)

lemma wire_parse_response:
  assumes "service_ok service" "label_ok peer" "length vs \<le> 29"
    and "list_all (\<lambda>v. accepted v \<and> \<not> has_space v) vs"
  shows "wire_parse (message_wire (response_message i peer ttl service (map (txt_rr [peer] ttl) vs)))
    = Inr \<lparr>hk_id = i, hk_queries = [],
           hk_answers = [\<lparr>hk_name = labels_of service, hk_data = Some (PTR [peer]), hk_ttl = ttl\<rparr>],
           hk_additionals = map (\<lambda>v. \<lparr>hk_name = [peer], hk_data = Some (TXT [bytes_of v]),
                                       hk_ttl = ttl\<rparr>) vs\<rparr>"
proof -
  let ?m = "response_message i peer ttl service (map (txt_rr [peer] ttl) vs)"
  have rrs: "list_all rr_ok (map (txt_rr [peer] ttl) vs)"
    using assms(2,4) length_txt_data by (fastforce simp: list_all_iff rr_ok_def txt_rr_def)
  have "read_message (message_wire ?m) = Some ?m"
    using assms by (simp add: read_message_wire response_message_ok rrs)
  moreover have "read_name (name_wire [peer]) = Some ([peer], [])"
    using assms(2) by (simp add: wire_name.rd_wr_all)
  moreover have "map wire_record (map (txt_rr [peer] ttl) vs)
      = map (\<lambda>v. \<lparr>hk_name = [peer], hk_data = Some (TXT [bytes_of v]), hk_ttl = ttl\<rparr>) vs"
    using assms(4) by (auto simp: list_all_iff wire_record_def wire_rdata_txt) (simp add: txt_rr_def)+
  moreover have "list_all (\<lambda>r. wire_rdata r \<noteq> None) (map (txt_rr [peer] ttl) vs)"
    using assms(4) by (auto simp: list_all_iff wire_rdata_txt)
  ultimately show ?thesis
    by (simp add: wire_parse_def response_message_def wire_record_def wire_rdata_def)
qed

lemma map_filter_Some: "(\<And>x. x \<in> set xs \<Longrightarrow> f x = Some (g x)) \<Longrightarrow> List.map_filter f xs = map g xs"
  by (induction xs) (simp_all add: List.map_filter_def)

text \<open>A value the announcing node writes is read as its address, without the \<open>/p2p\<close> end.\<close>

lemma read_dnsaddr_announced:
  assumes "addr_lib_ok L" "is_ascii (txt_to_send (ma_show L a) (pid_base58 L pid))"
    and "ma_parse L (ma_show L a @ ''/p2p/'' @ pid_base58 L pid) = Some (ma_with L a (P2p pid))"
  shows "read_dnsaddr L (bytes_of (txt_to_send (ma_show L a) (pid_base58 L pid))) = Some (pid, a)"
proof -
  let ?text = "ma_show L a @ ''/p2p/'' @ pid_base58 L pid"
  have v: "bytes_of (txt_to_send (ma_show L a) (pid_base58 L pid))
      = bytes_of ''dnsaddr='' @ bytes_of ?text"
    by (simp add: txt_to_send_def flip: bytes_of_append)
  have utf8: "from_utf8 (bytes_of ?text) = Some ?text"
    using assms(2) by (intro from_utf8_ascii) (auto simp: is_ascii_def txt_to_send_def)
  have decoded: "decode_character_string (bytes_of ''dnsaddr='' @ bytes_of ?text)
      = Inr (bytes_of ''dnsaddr='' @ bytes_of ?text)"
    by (simp add: decode_character_string_def) (simp add: bytes_of_def)
  have pop: "ma_pop L (ma_with L a (P2p pid)) = (Some (P2p pid), a)"
    using assms(1) by (simp add: addr_lib_ok_def)
  have pre: "starts_with (bytes_of ''dnsaddr='' @ bytes_of ?text) (bytes_of ''dnsaddr='')"
    by (rule starts_with_append)
  have drop: "drop 8 (bytes_of ''dnsaddr='' @ bytes_of ?text) = bytes_of ?text"
    by simp
  show ?thesis
    unfolding read_dnsaddr_def v decoded using pre drop utf8 assms(3) pop by simp
qed

lemma mdns_peer_announced:
  assumes "\<And>a. a \<in> set as \<Longrightarrow> read_dnsaddr L (bytes_of (f a)) = Some (pid, a)"
    and "hk_additionals m
      = map (\<lambda>v. \<lparr>hk_name = [peer], hk_data = Some (TXT [bytes_of v]), hk_ttl = ttl\<rparr>) (map f as)"
  shows "mdns_peer_new wire_lib L m [peer] ttl
    = (if as = [] then None else Some \<lparr>addrs = as, peer_id = pid, peer_ttl = ttl\<rparr>)"
proof -
  have txts: "txt_strings_of wire_lib m [peer] = map (\<lambda>a. bytes_of (f a)) as"
    using assms(2) by (simp add: txt_strings_of_def wire_lib_def List.map_filter_def comp_def)
  have "List.map_filter (read_dnsaddr L) (map (\<lambda>a. bytes_of (f a)) as) = map (\<lambda>a. (pid, a)) as"
    using assms(1) by (induction as) (simp_all add: List.map_filter_def)
  moreover have "[a. (p, a) \<leftarrow> map (\<lambda>a. (pid, a)) as, p = pid] = as"
    by (induction as) simp_all
  ultimately show ?thesis
    using txts by (cases as) (simp_all add: peer_of_first_address_list Let_def)
qed

section \<open>All packets\<close>

lemma chunks_map: "chunks (map g xs) = map (map g) (chunks xs)"
  by (induction xs rule: chunks.induct) (simp_all add: take_map drop_map)

lemma receive_response:
  assumes "service_ok service" "label_ok peer" "bytes_of fqdn = service @ [byte_of (CHR ''.'')]"
    and "length as \<le> 29" and "\<And>a. a \<in> set as \<Longrightarrow> accepted (f a) \<and> \<not> has_space (f a)"
    and "\<And>a. a \<in> set as \<Longrightarrow> read_dnsaddr L (bytes_of (f a)) = Some (pid, a)"
  shows "new_from_bytes wire_lib L
      (message_wire (response_message i peer ttl service (map (\<lambda>a. txt_rr [peer] ttl (f a)) as)))
      from fqdn meta_fqdn
    = Inr (Some (Response \<lparr>peers = (if as = [] then []
          else [\<lparr>addrs = as, peer_id = pid, peer_ttl = ttl\<rparr>]), resp_from = from\<rparr>))"
proof -
  have vs: "list_all (\<lambda>v. accepted v \<and> \<not> has_space v) (map f as)"
    using assms(5) by (auto simp: list_all_iff)
  have parsed: "wire_parse (message_wire (response_message i peer ttl service
      (map (\<lambda>a. txt_rr [peer] ttl (f a)) as)))
    = Inr \<lparr>hk_id = i, hk_queries = [],
           hk_answers = [\<lparr>hk_name = labels_of service, hk_data = Some (PTR [peer]), hk_ttl = ttl\<rparr>],
           hk_additionals = map (\<lambda>v. \<lparr>hk_name = [peer], hk_data = Some (TXT [bytes_of v]),
                                       hk_ttl = ttl\<rparr>) (map f as)\<rparr>" (is "_ = Inr ?m")
    using wire_parse_response [OF assms(1,2) _ vs] assms(4) by (simp add: comp_def)
  have name: "text_of (fqdn_text (labels_of service)) = fqdn"
    by (simp add: labels_of_def fqdn_text_split flip: assms(3))
  have "mdns_peer_new wire_lib L ?m [peer] ttl
      = (if as = [] then None else Some \<lparr>addrs = as, peer_id = pid, peer_ttl = ttl\<rparr>)"
    using assms(6) by (intro mdns_peer_announced [where f = f]) simp_all
  with parsed name show ?thesis
    by (simp add: new_from_bytes_def mdns_response_new_def wire_lib_def List.map_filter_def)
qed

text \<open>
  C5: What a node announces another node discovers. Take any addresses, libp2p parsing back
  the text of each with the peer id appended, and no accepted text with a space; then every
  packet of the announcement is received as a response, every peer in it has the announcing
  node's id and TTL, and the addresses of all packets together are, in order, exactly those
  of the first 65535 whose text is ASCII and at most 255 bytes: none is lost, none is added.
\<close>

theorem announced_addresses_are_discovered:
  assumes "rng_ok rnd" "service_ok service" "bytes_of fqdn = service @ [byte_of (CHR ''.'')]"
    and L: "addr_lib_ok L"
    and parse: "\<And>a. a \<in> set addresses \<Longrightarrow>
      ma_parse L (ma_show L a @ ''/p2p/'' @ pid_base58 L pid) = Some (ma_with L a (P2p pid))"
    and space: "\<And>a. a \<in> set addresses \<Longrightarrow> \<not> has_space (txt_to_send (ma_show L a) (pid_base58 L pid))"
  shows "\<exists>ps rs.
    build_query_response (ma_show L) (pid_base58 L) rnd i pid addresses d service = Ret ps \<and>
    map (\<lambda>p. new_from_bytes wire_lib L p from fqdn meta_fqdn) ps
      = map (\<lambda>r. Inr (Some (Response r))) rs \<and>
    list_all (\<lambda>p. peer_id p = pid \<and> peer_ttl p = duration_to_secs d) (concat (map peers rs)) \<and>
    concat (map addrs (concat (map peers rs)))
      = filter (\<lambda>a. accepted (txt_to_send (ma_show L a) (pid_base58 L pid))) (take 65535 addresses)"
proof -
  define f where "f = (\<lambda>a. txt_to_send (ma_show L a) (pid_base58 L pid))"
  define as where "as = filter (\<lambda>a. accepted (f a)) (take 65535 addresses)"
  define gs where "gs = (if as = [] then [[]] else chunks as)"
  let ?ttl = "duration_to_secs d" and ?peer = "peer_label rnd"
  let ?resp = "\<lambda>g. \<lparr>peers = (if g = [] then [] else [\<lparr>addrs = g, peer_id = pid, peer_ttl = ?ttl\<rparr>]),
      resp_from = from\<rparr>"
  let ?pkt = "\<lambda>g. message_wire (response_message i ?peer ?ttl service (map (\<lambda>a. txt_rr [?peer] ?ttl (f a)) g))"
  have as_eq: "as = filter (\<lambda>a. accepted (txt_to_send (ma_show L a) (pid_base58 L pid))) (take 65535 addresses)"
    by (simp add: as_def f_def)
  have vs: "txt_values (pid_base58 L pid) (map (ma_show L) (take 65535 addresses)) = map f as"
    by (simp add: txt_values_def as_def f_def filter_map comp_def)
  have groups: "response_groups ?ttl ?peer (map f as) = map (map (\<lambda>a. txt_rr [?peer] ?ttl (f a))) gs"
    by (simp add: response_groups_def gs_def comp_def chunks_map)
  have mem: "a \<in> set addresses \<and> accepted (f a)" if "g \<in> set gs" "a \<in> set g" for g a
    using that chunks_subset [of g as] set_take_subset [of 65535 addresses]
    by (auto simp: gs_def as_def split: if_splits)
  have recv: "new_from_bytes wire_lib L (?pkt g) from fqdn meta_fqdn = Inr (Some (Response (?resp g)))"
    if g: "g \<in> set gs" for g
  proof (rule receive_response [OF assms(2) label_ok_peer_label [OF assms(1)] assms(3)])
    show "length g \<le> 29" using g chunks_length by (auto simp: gs_def split: if_splits)
    fix a assume "a \<in> set g"
    from mem [OF g this] space parse show "accepted (f a) \<and> \<not> has_space (f a)"
      "read_dnsaddr L (bytes_of (f a)) = Some (pid, a)"
      unfolding f_def by (auto intro!: read_dnsaddr_announced [OF L] simp: accepted_def)
  qed
  have "concat (map addrs (concat (map peers (map ?resp gs)))) = concat gs"
    by (induction gs) simp_all
  moreover have "concat gs = as" by (simp add: gs_def)
  moreover have "list_all (\<lambda>p. peer_id p = pid \<and> peer_ttl p = ?ttl) (concat (map peers (map ?resp gs)))"
    by (induction gs) simp_all
  moreover have "build_query_response (ma_show L) (pid_base58 L) rnd i pid addresses d service
      = Ret (map ?pkt gs)"
    by (simp add: build_query_response_wire [OF assms(1,2)] vs groups)
  ultimately show ?thesis
    using recv
    by (intro exI [of _ "map ?pkt gs"] exI [of _ "map ?resp gs"])
      (simp add: as_eq [symmetric])
qed

definition sample_lib :: "(nat protocol list, nat) addr_lib" where
  "sample_lib = list_lib (\<lambda>s. if s = ''/ip4/1.2.3.4/tcp/5000/p2p/12D3'' then Some [Ip4 0x01020304, Tcp 5000, P2p 1] else None)
     (\<lambda>_. ''/ip4/1.2.3.4/tcp/5000'') (\<lambda>_. ''12D3'') (\<lambda>_. None)"

theorem announced_addresses_are_discovered_witness:
  "\<exists>ps rs. build_query_response (ma_show sample_lib) (pid_base58 sample_lib) sample_rng 7 1
      [[Ip4 0x01020304, Tcp 5000]] 60 (bytes_of ''_p2p._udp.local'') = Ret ps \<and>
    map (\<lambda>p. new_from_bytes wire_lib sample_lib p \<lparr>ip = V4 9, port = 5353\<rparr> ''_p2p._udp.local.'' ''x'') ps
      = map (\<lambda>r. Inr (Some (Response r))) rs \<and>
    concat (map addrs (concat (map peers rs))) = [[Ip4 0x01020304, Tcp 5000]]"
proof -
  have "addr_lib_ok sample_lib" "bytes_of ''_p2p._udp.local.'' = bytes_of ''_p2p._udp.local'' @ [byte_of (CHR ''.'')]"
    by (simp_all add: sample_lib_def) (simp add: bytes_of_def)
  from announced_addresses_are_discovered [OF sample_rng_ok p2p_service_ok this(2,1),
      of "[[Ip4 0x01020304, Tcp 5000]]" 1 7 60 "\<lparr>ip = V4 9, port = 5353\<rparr>" "''x''"]
  show ?thesis
    by (auto simp: sample_lib_def list_lib_def has_space_def txt_to_send_def accepted_def is_ascii_def
        MAX_TXT_VALUE_LENGTH_def)
qed

end
