(* ===== verification/PollLoop.thy ===== *)
theory PollLoop
  imports Prelude
begin

text \<open>
  What the three behaviours that wrap a libp2p behaviour (\<open>gossip_bhv\<close>, \<open>dht_bhv\<close>,
  \<open>rendezvous_bhv\<close>) have in common: they delegate the connection callbacks to the wrapped
  behaviour, and their \<open>poll\<close> ends in the same loop over its \<open>poll\<close>, which the three files
  repeat word for word. The loop is \<open>poll_loop\<close>, with the parts that differ as arguments.
  The locales are the contract the loop relies on; each behaviour's theory interprets them.

  The state of a wrapped behaviour also stands for the outside world it is driven by (the
  clock, the timers, the channels): an operation of libp2p takes it and gives a new one.
\<close>

section \<open>Commands to the swarm\<close>

text \<open>
  \<open>libp2p::swarm::ToSwarm\<close>: the events of the behaviour and the commands the sources match.
  The payload of a command is passed on unread.
\<close>

datatype ('ev, 'x) to_swarm =
    GenerateEvent 'ev
  | Dial 'x
  | NotifyHandler 'x 'x 'x
  | CloseConnection 'x 'x
  | ListenOn 'x
  | RemoveListener 'x
  | NewExternalAddrCandidate 'x
  | ExternalAddrConfirmed 'x
  | ExternalAddrExpired 'x
  | OtherToSwarm 'x

text \<open>
  The arms of the \<open>match\<close>: a command is returned to the swarm, an event is handled, and
  \<open>_ => {}\<close> drops the rest.
\<close>

fun forwarded :: "('ev, 'x) to_swarm \<Rightarrow> ('out, 'x) to_swarm option" where
  "forwarded (GenerateEvent ev) = None"
| "forwarded (Dial opts) = Some (Dial opts)"
| "forwarded (NotifyHandler p h e) = Some (NotifyHandler p h e)"
| "forwarded (CloseConnection p c) = Some (CloseConnection p c)"
| "forwarded (ListenOn opts) = Some (ListenOn opts)"
| "forwarded (RemoveListener i) = Some (RemoveListener i)"
| "forwarded (NewExternalAddrCandidate c) = Some (NewExternalAddrCandidate c)"
| "forwarded (ExternalAddrConfirmed c) = Some (ExternalAddrConfirmed c)"
| "forwarded (ExternalAddrExpired c) = Some (ExternalAddrExpired c)"
| "forwarded (OtherToSwarm x) = None"

lemma forwarded_not_event: "forwarded r = Some out \<Longrightarrow> out \<noteq> GenerateEvent e"
  by (cases r) auto

text \<open>\<open>if !event_queue.is_empty() { return Ready(GenerateEvent(event_queue.remove(0))) }\<close>\<close>

definition pop_event ::
    "('b \<Rightarrow> 'out list) \<Rightarrow> ('out list \<Rightarrow> 'b \<Rightarrow> 'b) \<Rightarrow> 'b \<Rightarrow> (('out, 'x) to_swarm poll \<times> 'b) option" where
  "pop_event queue set_queue b =
     (case queue b of
        [] \<Rightarrow> None
      | e # es \<Rightarrow> Some (Ready (GenerateEvent e), set_queue es b))"

definition pop_event_or_pending ::
    "('b \<Rightarrow> 'out list) \<Rightarrow> ('out list \<Rightarrow> 'b \<Rightarrow> 'b) \<Rightarrow> 'b \<Rightarrow> ('out, 'x) to_swarm poll \<times> 'b" where
  "pop_event_or_pending queue set_queue b =
     (case pop_event queue set_queue b of Some res \<Rightarrow> res | None \<Rightarrow> (Pending, b))"

section \<open>The loop\<close>

text \<open>
  \<open>after\<close> is the check at the end of the loop's body, \<open>at_end\<close> the code after the loop. The
  wrapped behaviour may stay ready for ever, so the loop need not end.
\<close>

partial_function (option) poll_loop ::
    "('b \<Rightarrow> 'k) \<Rightarrow> ('k \<Rightarrow> 'b \<Rightarrow> 'b) \<Rightarrow> ('k \<Rightarrow> ('ev, 'x) to_swarm poll \<times> 'k) \<Rightarrow> ('ev \<Rightarrow> 'b \<Rightarrow> 'b)
      \<Rightarrow> ('b \<Rightarrow> (('out, 'x) to_swarm poll \<times> 'b) option) \<Rightarrow> ('b \<Rightarrow> ('out, 'x) to_swarm poll \<times> 'b)
      \<Rightarrow> 'b \<Rightarrow> (('out, 'x) to_swarm poll \<times> 'b) option" where
  "poll_loop inner set_inner poll handle after at_end b =
     (case poll (inner b) of
        (Pending, k) \<Rightarrow> Some (at_end (set_inner k b))
      | (Ready r, k) \<Rightarrow>
          (case forwarded r of
             Some out \<Rightarrow> Some (Ready out, set_inner k b)
           | None \<Rightarrow>
               (let b1 = set_inner k b;
                    b2 = (case r of GenerateEvent ev \<Rightarrow> handle ev b1 | _ \<Rightarrow> b1)
                in (case after b2 of
                      Some res \<Rightarrow> Some res
                    | None \<Rightarrow> poll_loop inner set_inner poll handle after at_end b2))))"

text \<open>One pass of the body after a \<open>Ready\<close> that is not forwarded.\<close>

definition absorb :: "('ev \<Rightarrow> 'b \<Rightarrow> 'b) \<Rightarrow> ('ev, 'x) to_swarm \<Rightarrow> 'b \<Rightarrow> 'b" where
  "absorb handle r b = (case r of GenerateEvent ev \<Rightarrow> handle ev b | _ \<Rightarrow> b)"

text \<open>
  Partial correctness: a relation between the state before and the result holds if every way
  out of the loop gives it and every pass that goes round again keeps it.
\<close>

lemma poll_loop_rule [consumes 1, case_names pending forward exit again]:
  assumes "poll_loop inner set_inner poll handle after at_end b = Some res"
    and pending: "\<And>b k. poll (inner b) = (Pending, k) \<Longrightarrow> Q b (at_end (set_inner k b))"
    and forward: "\<And>b r k out. poll (inner b) = (Ready r, k) \<Longrightarrow> forwarded r = Some out \<Longrightarrow>
      Q b (Ready out, set_inner k b)"
    and exit: "\<And>b r k res. poll (inner b) = (Ready r, k) \<Longrightarrow>
      after (absorb handle r (set_inner k b)) = Some res \<Longrightarrow> Q b res"
    and again: "\<And>b r k res. poll (inner b) = (Ready r, k) \<Longrightarrow>
      after (absorb handle r (set_inner k b)) = None \<Longrightarrow> Q (absorb handle r (set_inner k b)) res \<Longrightarrow> Q b res"
  shows "Q b res"
proof (rule poll_loop.raw_induct
    [where P = "\<lambda>i s p h a e b res. i = inner \<longrightarrow> s = set_inner \<longrightarrow> p = poll \<longrightarrow> h = handle \<longrightarrow>
        a = after \<longrightarrow> e = at_end \<longrightarrow> Q b res", OF _ assms(1), rule_format])
  fix f i s p h a e b res
  assume IH: "\<And>i s p h a e b res. f i s p h a e b = Some res \<Longrightarrow>
      i = inner \<Longrightarrow> s = set_inner \<Longrightarrow> p = poll \<Longrightarrow> h = handle \<Longrightarrow> a = after \<Longrightarrow> e = at_end \<Longrightarrow> Q b res"
    and step: "(case p (i b) of (Pending, k) \<Rightarrow> Some (e (s k b))
      | (Ready r, k) \<Rightarrow> (case forwarded r of Some out \<Rightarrow> Some (Ready out, s k b)
         | None \<Rightarrow> (let b1 = s k b; b2 = (case r of GenerateEvent ev \<Rightarrow> h ev b1 | _ \<Rightarrow> b1)
             in (case a b2 of Some res \<Rightarrow> Some res | None \<Rightarrow> f i s p h a e b2)))) = Some res"
    and eqs: "i = inner" "s = set_inner" "p = poll" "h = handle" "a = after" "e = at_end"
  note step = step [unfolded eqs, folded absorb_def]
  obtain pr k where poll: "poll (inner b) = (pr, k)" by force
  show "Q b res"
  proof (cases pr)
    case Pending
    with step poll pending show ?thesis by auto
  next
    case (Ready r)
    with step poll exit forward again IH show ?thesis
      by (auto simp: Let_def absorb_def split: option.splits)
  qed
qed simp_all

text \<open>A callback that only calls the wrapped behaviour.\<close>

definition delegate :: "('b \<Rightarrow> 'k) \<Rightarrow> ('k \<Rightarrow> 'b \<Rightarrow> 'b) \<Rightarrow> ('k \<Rightarrow> 'r \<times> 'k) \<Rightarrow> 'b \<Rightarrow> 'r \<times> 'b" where
  "delegate inner set_inner call b =
     (let (r, k) = call (inner b) in (r, set_inner k b))"

text \<open>The callbacks of \<open>NetworkBehaviour\<close> that are delegated, as the swarm gives them.\<close>

datatype ('i, 'a, 'x) callback =
    EstablishedInbound 'x 'i 'a 'a
  | PendingInbound 'x 'a 'a
  | EstablishedOutbound 'x 'i 'a 'x
  | PendingOutbound 'x "'i option" "'a list" 'x
  | ConnectionHandlerEvent 'i 'x 'x

section \<open>Runs of a wrapped behaviour\<close>

text \<open>
  \<open>yields poll k rs k'\<close>: polled again and again from \<open>k\<close>, the behaviour answers \<open>Ready\<close> with
  the items of \<open>rs\<close> in order and then \<open>Pending\<close>, in state \<open>k'\<close>.
\<close>

inductive yields :: "('k \<Rightarrow> ('ev, 'x) to_swarm poll \<times> 'k) \<Rightarrow> 'k \<Rightarrow> ('ev, 'x) to_swarm list \<Rightarrow> 'k \<Rightarrow> bool"
  for poll where
  yields_pending: "poll k = (Pending, k') \<Longrightarrow> yields poll k [] k'"
| yields_ready: "poll k = (Ready r, k1) \<Longrightarrow> yields poll k1 rs k' \<Longrightarrow> yields poll k (r # rs) k'"

inductive_cases yields_NilE: "yields poll k [] k'"
inductive_cases yields_ConsE: "yields poll k (r # rs) k'"

lemma yields_deterministic: "yields poll k rs k' \<Longrightarrow> yields poll k ss k'' \<Longrightarrow> rs = ss \<and> k' = k''"
proof (induction rs arbitrary: k ss)
  case Nil
  then have "poll k = (Pending, k')" by (elim yields_NilE)
  with Nil.prems(2) show ?case by cases simp_all
next
  case (Cons r rs)
  from Cons.prems(1) obtain k1 where k1: "poll k = (Ready r, k1)" "yields poll k1 rs k'"
    by (rule yields_ConsE)
  from Cons.prems(2) show ?case
  proof cases
    case yields_pending
    with k1 show ?thesis by simp
  next
    case (yields_ready s k2 ss')
    with k1 have "k2 = k1" "s = r" by simp_all
    with yields_ready k1 Cons.IH [of k1 ss'] show ?thesis by simp
  qed
qed

text \<open>Every behaviour with a decreasing measure of work settles.\<close>

lemma yields_exists:
  fixes work :: "'k \<Rightarrow> nat"
  assumes "\<And>k r k'. poll k = (Ready r, k') \<Longrightarrow> work k' < work k"
  shows "\<exists>rs k'. yields poll k rs k'"
proof (induction "work k" arbitrary: k rule: less_induct)
  case less
  obtain pr k1 where poll: "poll k = (pr, k1)" by force
  show ?case
  proof (cases pr)
    case Pending
    with poll show ?thesis by (auto intro: yields_pending)
  next
    case (Ready r)
    with poll assms less obtain rs k' where "yields poll k1 rs k'" by blast
    with poll Ready show ?thesis by (auto intro: yields_ready)
  qed
qed

section \<open>The contract\<close>

text \<open>The wrapped behaviour is a field of the wrapper.\<close>

locale wrapped_behaviour =
  fixes inner :: "'b \<Rightarrow> 'k"
    and set_inner :: "'k \<Rightarrow> 'b \<Rightarrow> 'b"
  assumes inner_set [simp]: "inner (set_inner k b) = k"
    and set_inner_same [simp]: "set_inner (inner b) b = b"
    and set_inner_twice [simp]: "set_inner k (set_inner k' b) = set_inner k b"
begin

lemma delegate_result: "fst (delegate inner set_inner call b) = fst (call (inner b))"
  by (simp add: delegate_def split_beta)

lemma delegate_state: "snd (delegate inner set_inner call b) = set_inner (snd (call (inner b))) b"
  by (simp add: delegate_def split_beta)

lemma delegate_delegate:
  "delegate inner set_inner call2 (snd (delegate inner set_inner call1 b))
     = delegate inner set_inner (\<lambda>k. call2 (snd (call1 k))) b"
  by (simp add: delegate_def split_beta)

end

text \<open>
  The wrapper keeps a queue of events for the swarm: handling an event of the wrapped
  behaviour only appends to it, and the code after the loop and at the end of its body takes
  events from its front.
\<close>

locale event_wrapper = wrapped_behaviour inner set_inner
  for inner :: "'b \<Rightarrow> 'k" and set_inner :: "'k \<Rightarrow> 'b \<Rightarrow> 'b" +
  fixes queue :: "'b \<Rightarrow> 'out list"
    and set_queue :: "'out list \<Rightarrow> 'b \<Rightarrow> 'b"
    and handle :: "'ev \<Rightarrow> 'b \<Rightarrow> 'b"
    and new_events :: "'ev \<Rightarrow> 'b \<Rightarrow> 'out list"
    and after :: "'b \<Rightarrow> (('out, 'x) to_swarm poll \<times> 'b) option"
    and at_end :: "'b \<Rightarrow> ('out, 'x) to_swarm poll \<times> 'b"
  assumes queue_set [simp]: "queue (set_queue es b) = es"
    and queue_set_inner [simp]: "queue (set_inner k b) = queue b"
    and queue_handle: "queue (handle ev b) = queue b @ new_events ev b"
    and after_pops: "after b = None \<or> after b = pop_event queue set_queue b"
    and at_end_pops: "at_end b = (Pending, b) \<or> at_end b = pop_event_or_pending queue set_queue b"
begin

text \<open>What a call gives back, with what stays queued: nothing is lost or reordered.\<close>

definition accounted :: "('out, 'x) to_swarm poll \<times> 'b \<Rightarrow> 'out list" where
  "accounted res = (case fst res of Ready (GenerateEvent e) \<Rightarrow> [e] | _ \<Rightarrow> []) @ queue (snd res)"

lemma accounted_pop: "pop_event queue set_queue b = Some res \<Longrightarrow> accounted res = queue b"
  by (auto simp: pop_event_def accounted_def split: list.splits)

lemma accounted_at_end: "accounted (at_end b) = queue b"
proof (cases "pop_event queue set_queue b :: (('out, 'x) to_swarm poll \<times> 'b) option")
  case None
  then have "at_end b = (Pending, b)"
    using at_end_pops [of b] by (auto simp: pop_event_or_pending_def)
  then show ?thesis by (simp add: accounted_def)
next
  case (Some res)
  then show ?thesis
    using at_end_pops [of b] accounted_pop [OF Some]
    by (auto simp: pop_event_or_pending_def accounted_def)
qed

lemma accounted_after: "after b = Some res \<Longrightarrow> accounted res = queue b"
  using after_pops [of b] accounted_pop by (metis option.distinct(1))

lemma accounted_forwarded: "forwarded r = Some out \<Longrightarrow> accounted (Ready out, b) = queue b"
  using forwarded_not_event [of r out] by (auto simp: accounted_def split: to_swarm.splits)

lemma queue_absorb: "\<exists>new. queue (absorb handle r b) = queue b @ new"
  by (cases r) (simp_all add: absorb_def queue_handle)

lemma poll_loop_fifo:
  "poll_loop inner set_inner poll handle after at_end b = Some res
     \<Longrightarrow> \<exists>new. accounted res = queue b @ new"
proof (induction rule: poll_loop_rule)
  case (pending b k)
  then show ?case by (simp add: accounted_at_end)
next
  case (forward b r k out)
  then show ?case by (simp add: accounted_forwarded)
next
  case (exit b r k res)
  then show ?case
    using queue_absorb [of r "set_inner k b"] by (auto dest: accounted_after)
next
  case (again b r k res)
  then show ?case
    using queue_absorb [of r "set_inner k b"] by auto
qed

text \<open>
  The loop ends when the wrapped behaviour is ready only finitely often: here when a measure
  of its state goes down with every \<open>Ready\<close> and no handler raises it.
\<close>

lemma poll_loop_terminates:
  fixes work :: "'k \<Rightarrow> nat"
  assumes "\<And>k r k'. poll k = (Ready r, k') \<Longrightarrow> work k' < work k"
    and "\<And>ev b. work (inner (handle ev b)) \<le> work (inner b)"
  shows "\<exists>res. poll_loop inner set_inner poll handle after at_end b = Some res"
proof (induction "work (inner b)" arbitrary: b rule: less_induct)
  case less
  obtain pr k where poll: "poll (inner b) = (pr, k)" by force
  show ?case
  proof (cases pr)
    case Pending
    with poll show ?thesis by (subst poll_loop.simps) simp
  next
    case (Ready r)
    let ?b2 = "case r of GenerateEvent ev \<Rightarrow> handle ev (set_inner k b) | _ \<Rightarrow> set_inner k b"
    have "work (inner ?b2) \<le> work k"
      using assms(2) [of _ "set_inner k b"] by (cases r) simp_all
    also have "work k < work (inner b)" using assms(1) poll Ready by blast
    finally obtain res where "poll_loop inner set_inner poll handle after at_end ?b2 = Some res"
      using less by blast
    with poll Ready show ?thesis
      by (subst poll_loop.simps) (auto simp: Let_def split: option.splits)
  qed
qed

end

end
