(* ===== verification/Gossip.thy ===== *)
theory Gossip
  imports PollLoop Backoff "HOL-Library.Multiset"
begin

text \<open>
  \<open>src/behaviours/gossip_bhv.rs\<close>: the gossip behaviour, which wraps libp2p's gossipsub with
  a retry queue for messages that could not be published, a set of subscriptions and a queue
  of events for the node. gossipsub's operations are the fields of a \<open>gossip_api\<close>; its state
  \<open>'g\<close> includes the clock.
\<close>

section \<open>gossipsub's interface\<close>

text \<open>\<open>Message\<close> with its propagation source, topic and data; the other events are ignored.\<close>

datatype ('i, 'h) gossipsub_event =
    Message 'i 'h bytes
  | OtherGossipsubEvent

record ('g, 'i, 'h, 'a, 'x, 'r) gossip_api =
  gs_publish :: "string \<Rightarrow> bytes \<Rightarrow> 'g \<Rightarrow> bool \<times> 'g"
  gs_subscribe :: "string \<Rightarrow> 'g \<Rightarrow> bool \<times> 'g"
  gs_unsubscribe :: "string \<Rightarrow> 'g \<Rightarrow> bool \<times> 'g"
  gs_add_explicit_peer :: "'i \<Rightarrow> 'g \<Rightarrow> 'g"
  gs_poll :: "'g \<Rightarrow> (('i, 'h) gossipsub_event, 'x) to_swarm poll \<times> 'g"
  gs_now :: "'g \<Rightarrow> instant \<times> 'g"
  gs_callback :: "('i, 'a, 'x) callback \<Rightarrow> 'g \<Rightarrow> 'r \<times> 'g"
  gs_on_swarm_event :: "'x \<Rightarrow> 'g \<Rightarrow> 'g"

section \<open>State\<close>

datatype 'h gossip_event = MsgReceived 'h bytes

record ('g, 'i, 'h) gossip_bhv =
  local_peer_id :: 'i
  gossip :: 'g
  in_progress_messages :: "(string \<times> bytes) list"
  gossip_backoff :: backoff
  gossip_queue :: "'h gossip_event list"
  subscriptions :: "string set"
  enable_republish :: bool

definition set_gossip :: "'g \<Rightarrow> ('g, 'i, 'h) gossip_bhv \<Rightarrow> ('g, 'i, 'h) gossip_bhv" where
  "set_gossip g b = b\<lparr>gossip := g\<rparr>"

definition set_gossip_queue ::
    "'h gossip_event list \<Rightarrow> ('g, 'i, 'h) gossip_bhv \<Rightarrow> ('g, 'i, 'h) gossip_bhv" where
  "set_gossip_queue es b = b\<lparr>gossip_queue := es\<rparr>"

definition gossip_new :: "'i \<Rightarrow> 'g \<Rightarrow> bool \<Rightarrow> ('g, 'i, 'h) gossip_bhv" where
  "gossip_new peer behaviour republish =
     \<lparr>local_peer_id = peer, gossip = behaviour, in_progress_messages = [],
      gossip_backoff = backoff_default, gossip_queue = [], subscriptions = {},
      enable_republish = republish\<rparr>"

section \<open>Operations\<close>

fun add_explicit_peers ::
    "('g, 'i, 'h, 'a, 'x, 'r) gossip_api \<Rightarrow> 'i list \<Rightarrow> ('g, 'i, 'h) gossip_bhv
      \<Rightarrow> ('g, 'i, 'h) gossip_bhv" where
  "add_explicit_peers A [] b = b"
| "add_explicit_peers A (peer # rest) b =
     add_explicit_peers A rest (b\<lparr>gossip := gs_add_explicit_peer A peer (gossip b)\<rparr>)"

definition publish ::
    "('g, 'i, 'h, 'a, 'x, 'r) gossip_api \<Rightarrow> string \<Rightarrow> bytes \<Rightarrow> ('g, 'i, 'h) gossip_bhv
      \<Rightarrow> ('g, 'i, 'h) gossip_bhv" where
  "publish A topic contents b =
     (let (ok, g) = gs_publish A topic contents (gossip b);
          b1 = b\<lparr>gossip := g\<rparr>
      in if \<not> ok \<and> enable_republish b1
         then b1\<lparr>in_progress_messages := in_progress_messages b1 @ [(topic, contents)]\<rparr>
         else b1)"

definition subscribe ::
    "('g, 'i, 'h, 'a, 'x, 'r) gossip_api \<Rightarrow> string \<Rightarrow> ('g, 'i, 'h) gossip_bhv
      \<Rightarrow> ('g, 'i, 'h) gossip_bhv" where
  "subscribe A topic b =
     (if topic \<notin> subscriptions b
      then (let (ok, g) = gs_subscribe A topic (gossip b)
            in b\<lparr>gossip := g, subscriptions := insert topic (subscriptions b)\<rparr>)
      else b)"

definition unsubscribe ::
    "('g, 'i, 'h, 'a, 'x, 'r) gossip_api \<Rightarrow> string \<Rightarrow> ('g, 'i, 'h) gossip_bhv
      \<Rightarrow> ('g, 'i, 'h) gossip_bhv" where
  "unsubscribe A topic b =
     (if topic \<in> subscriptions b
      then (let (ok, g) = gs_unsubscribe A topic (gossip b)
            in b\<lparr>gossip := g, subscriptions := subscriptions b - {topic}\<rparr>)
      else b)"

text \<open>The \<open>while let\<close> loop: it stops at the first message that fails, which goes to the back.\<close>

function drain_publish ::
    "('g, 'i, 'h, 'a, 'x, 'r) gossip_api \<Rightarrow> ('g, 'i, 'h) gossip_bhv
      \<Rightarrow> bool \<times> ('g, 'i, 'h) gossip_bhv" where
  "drain_publish A b =
     (case in_progress_messages b of
        [] \<Rightarrow> (True, b)
      | (topic, contents) # rest \<Rightarrow>
          (let (ok, g) = gs_publish A topic contents (gossip b);
               b1 = b\<lparr>in_progress_messages := rest, gossip := g\<rparr>
           in if ok then drain_publish A b1
              else (False, b1\<lparr>in_progress_messages := rest @ [(topic, contents)]\<rparr>)))"
  by pat_completeness auto
termination
  by (relation "measure (\<lambda>(A, b). length (in_progress_messages b))") auto

declare drain_publish.simps [simp del]

definition gossip_handle_event ::
    "('i, 'h) gossipsub_event \<Rightarrow> ('g, 'i, 'h) gossip_bhv \<Rightarrow> ('g, 'i, 'h) gossip_bhv" where
  "gossip_handle_event event b =
     (case event of
        Message propagation_source topic data \<Rightarrow>
          if local_peer_id b = propagation_source then b
          else b\<lparr>gossip_queue := gossip_queue b @ [MsgReceived topic data]\<rparr>
      | OtherGossipsubEvent \<Rightarrow> b)"

text \<open>\<open>poll\<close>: first the retries when their time has come, then the loop.\<close>

definition republish ::
    "('g, 'i, 'h, 'a, 'x, 'r) gossip_api \<Rightarrow> ('g, 'i, 'h) gossip_bhv \<Rightarrow> ('g, 'i, 'h) gossip_bhv" where
  "republish A b =
     (if enable_republish b
      then (let (now, g) = gs_now A (gossip b); b1 = b\<lparr>gossip := g\<rparr>
            in if is_expired now (gossip_backoff b1)
               then (let (all_republished, b2) = drain_publish A b1;
                         (later, g2) = gs_now A (gossip b2)
                     in b2\<lparr>gossip := g2,
                           gossip_backoff := start_next later all_republished (gossip_backoff b2)\<rparr>)
               else b1)
      else b)"

definition gossip_poll ::
    "('g, 'i, 'h, 'a, 'x, 'r) gossip_api \<Rightarrow> ('g, 'i, 'h) gossip_bhv
      \<Rightarrow> (('h gossip_event, 'x) to_swarm poll \<times> ('g, 'i, 'h) gossip_bhv) option" where
  "gossip_poll A b =
     poll_loop gossip set_gossip (gs_poll A) gossip_handle_event (\<lambda>_. None)
       (pop_event_or_pending gossip_queue set_gossip_queue) (republish A b)"

definition gossip_callback ::
    "('g, 'i, 'h, 'a, 'x, 'r) gossip_api \<Rightarrow> ('i, 'a, 'x) callback \<Rightarrow> ('g, 'i, 'h) gossip_bhv
      \<Rightarrow> 'r \<times> ('g, 'i, 'h) gossip_bhv" where
  "gossip_callback A cb b = delegate gossip set_gossip (gs_callback A cb) b"

definition gossip_on_swarm_event ::
    "('g, 'i, 'h, 'a, 'x, 'r) gossip_api \<Rightarrow> 'x \<Rightarrow> ('g, 'i, 'h) gossip_bhv
      \<Rightarrow> ('g, 'i, 'h) gossip_bhv" where
  "gossip_on_swarm_event A event b =
     snd (delegate gossip set_gossip (\<lambda>g. ((), gs_on_swarm_event A event g)) b)"

section \<open>The behaviour is an event wrapper\<close>

fun gossip_new_events :: "('i, 'h) gossipsub_event \<Rightarrow> ('g, 'i, 'h) gossip_bhv \<Rightarrow> 'h gossip_event list" where
  "gossip_new_events (Message src topic data) b =
     (if local_peer_id b = src then [] else [MsgReceived topic data])"
| "gossip_new_events OtherGossipsubEvent b = []"

interpretation gossip_wrapper: event_wrapper gossip set_gossip gossip_queue set_gossip_queue
  gossip_handle_event gossip_new_events "\<lambda>_. None" "pop_event_or_pending gossip_queue set_gossip_queue"
  by unfold_locales
    (auto simp: set_gossip_def set_gossip_queue_def gossip_handle_event_def
      split: gossipsub_event.splits)

section \<open>An example of a gossipsub\<close>

text \<open>
  A gossipsub for the examples: it refuses the first \<open>n\<close> messages, and reports the items of a
  list one after the other.
\<close>

definition sample_gossip ::
    "(nat \<times> ((string, string) gossipsub_event, unit) to_swarm list \<times> instant,
      string, string, unit, unit, unit) gossip_api" where
  "sample_gossip =
     \<lparr>gs_publish = (\<lambda>topic contents (n, evs, now). (n = 0, n - 1, evs, now)),
      gs_subscribe = (\<lambda>topic s. (False, s)),
      gs_unsubscribe = (\<lambda>topic s. (True, s)),
      gs_add_explicit_peer = (\<lambda>peer s. s),
      gs_poll = (\<lambda>(n, evs, now). case evs of
          [] \<Rightarrow> (Pending, n, [], now)
        | e # rest \<Rightarrow> (Ready e, n, rest, now)),
      gs_now = (\<lambda>(n, evs, now). (now, n, evs, now + nanos_per_sec)),
      gs_callback = (\<lambda>cb s. ((), s)),
      gs_on_swarm_event = (\<lambda>ev (n, evs, now).
        (n, evs @ [GenerateEvent (Message ''b'' ''t'' [1]), GenerateEvent OtherGossipsubEvent], now))\<rparr>"

lemma sample_gossip_settles:
  "gs_poll sample_gossip s = (Ready r, s') \<Longrightarrow> length (fst (snd s')) < length (fst (snd s))"
  by (cases s) (auto simp: sample_gossip_def split: list.splits)

section \<open>What a poll delivers\<close>

definition received :: "'i \<Rightarrow> (('i, 'h) gossipsub_event, 'x) to_swarm list \<Rightarrow> 'h gossip_event list" where
  "received local_id rs =
     List.map_filter (\<lambda>r. case r of
         GenerateEvent (Message src topic data) \<Rightarrow>
           if local_id = src then None else Some (MsgReceived topic data)
       | _ \<Rightarrow> None) rs"

text \<open>The items the loop does not return to the swarm at once.\<close>

fun swallowed :: "('ev, 'x) to_swarm \<Rightarrow> bool" where
  "swallowed (GenerateEvent ev) = True"
| "swallowed (OtherToSwarm x) = True"
| "swallowed _ = False"

lemma forwarded_swallowed: "swallowed r \<Longrightarrow> forwarded r = None"
  by (cases r) simp_all

lemma received_Nil [simp]: "received i [] = []"
  by (simp add: received_def List.map_filter_def)

lemma received_Cons: "received i (r # rs) = received i [r] @ received i rs"
  by (simp add: received_def List.map_filter_def)

lemma gossip_absorb:
  "absorb gossip_handle_event r (set_gossip g1 b)
     = b\<lparr>gossip := g1, gossip_queue := gossip_queue b @ received (local_peer_id b) [r]\<rparr>"
proof (cases r)
  case (GenerateEvent ev)
  then show ?thesis
    by (cases ev) (simp_all add: absorb_def set_gossip_def gossip_handle_event_def received_def
        List.map_filter_def)
qed (simp_all add: absorb_def set_gossip_def received_def List.map_filter_def)

lemma gossip_loop_yields:
  "yields (gs_poll A) (gossip b) rs g' \<Longrightarrow> list_all swallowed rs \<Longrightarrow>
     poll_loop gossip set_gossip (gs_poll A) gossip_handle_event (\<lambda>_. None)
       (pop_event_or_pending gossip_queue set_gossip_queue) b
     = Some (pop_event_or_pending gossip_queue set_gossip_queue
         (b\<lparr>gossip := g', gossip_queue := gossip_queue b @ received (local_peer_id b) rs\<rparr>))"
proof (induction rs arbitrary: b)
  case Nil
  then have "gs_poll A (gossip b) = (Pending, g')" by (elim yields_NilE)
  then show ?case
    by (subst poll_loop.simps) (simp add: set_gossip_def)
next
  case (Cons r rs)
  from Cons.prems(1) obtain g1 where
    poll: "gs_poll A (gossip b) = (Ready r, g1)" and rest: "yields (gs_poll A) g1 rs g'"
    by (rule yields_ConsE)
  let ?b1 = "b\<lparr>gossip := g1, gossip_queue := gossip_queue b @ received (local_peer_id b) [r]\<rparr>"
  have "poll_loop gossip set_gossip (gs_poll A) gossip_handle_event (\<lambda>_. None)
       (pop_event_or_pending gossip_queue set_gossip_queue) b
     = poll_loop gossip set_gossip (gs_poll A) gossip_handle_event (\<lambda>_. None)
       (pop_event_or_pending gossip_queue set_gossip_queue) ?b1"
    using poll Cons.prems(2)
    by (subst poll_loop.simps) (simp add: forwarded_swallowed Let_def absorb_def [symmetric] gossip_absorb)
  also have "\<dots> = Some (pop_event_or_pending gossip_queue set_gossip_queue
         (b\<lparr>gossip := g', gossip_queue := gossip_queue b @ received (local_peer_id b) (r # rs)\<rparr>))"
    using rest Cons.prems(2) Cons.IH [of ?b1] by (simp add: received_Cons [of _ r rs])
  finally show ?case .
qed

text \<open>The retries touch nothing but gossipsub, the retry queue and the backoff.\<close>

definition frame :: "('g, 'i, 'h) gossip_bhv \<Rightarrow> 'i \<times> 'h gossip_event list \<times> string set \<times> bool" where
  "frame b = (local_peer_id b, gossip_queue b, subscriptions b, enable_republish b)"

lemma frame_update [simp]:
  "frame (b\<lparr>gossip := g\<rparr>) = frame b"
  "frame (b\<lparr>in_progress_messages := ms\<rparr>) = frame b"
  "frame (b\<lparr>gossip_backoff := bo\<rparr>) = frame b"
  by (simp_all add: frame_def)

lemma drain_publish_Nil: "in_progress_messages b = [] \<Longrightarrow> drain_publish A b = (True, b)"
  by (subst drain_publish.simps) simp

lemma drain_publish_sent:
  "in_progress_messages b = (topic, contents) # rest \<Longrightarrow>
   gs_publish A topic contents (gossip b) = (True, g) \<Longrightarrow>
   drain_publish A b = drain_publish A (b\<lparr>in_progress_messages := rest, gossip := g\<rparr>)"
  by (subst drain_publish.simps) simp

lemma drain_publish_failed:
  "in_progress_messages b = (topic, contents) # rest \<Longrightarrow>
   gs_publish A topic contents (gossip b) = (False, g) \<Longrightarrow>
   drain_publish A b
     = (False, b\<lparr>in_progress_messages := rest @ [(topic, contents)], gossip := g\<rparr>)"
  by (subst drain_publish.simps) simp

lemmas drain_publish_steps = drain_publish_Nil drain_publish_sent drain_publish_failed

lemma drain_publish_cases [case_names empty sent failed]:
  assumes "in_progress_messages b = [] \<Longrightarrow> P"
    and "\<And>topic contents rest g. in_progress_messages b = (topic, contents) # rest \<Longrightarrow>
      gs_publish A topic contents (gossip b) = (True, g) \<Longrightarrow> P"
    and "\<And>topic contents rest g. in_progress_messages b = (topic, contents) # rest \<Longrightarrow>
      gs_publish A topic contents (gossip b) = (False, g) \<Longrightarrow> P"
  shows P
proof (cases "in_progress_messages b")
  case (Cons m rest)
  obtain topic contents where m: "m = (topic, contents)" by force
  obtain ok g where "gs_publish A topic contents (gossip b) = (ok, g)" by force
  with Cons m assms show ?thesis by (cases ok) auto
qed (use assms in blast)

lemma drain_publish_induct [case_names empty sent failed]:
  assumes "\<And>b. in_progress_messages b = [] \<Longrightarrow> P b"
    and "\<And>b topic contents rest g. in_progress_messages b = (topic, contents) # rest \<Longrightarrow>
      gs_publish A topic contents (gossip b) = (True, g) \<Longrightarrow>
      P (b\<lparr>in_progress_messages := rest, gossip := g\<rparr>) \<Longrightarrow> P b"
    and "\<And>b topic contents rest g. in_progress_messages b = (topic, contents) # rest \<Longrightarrow>
      gs_publish A topic contents (gossip b) = (False, g) \<Longrightarrow> P b"
  shows "P b"
proof (induction "length (in_progress_messages b)" arbitrary: b rule: less_induct)
  case less
  show ?case
  proof (cases rule: drain_publish_cases [of b _ A])
    case (sent topic contents rest g)
    with less [of "b\<lparr>in_progress_messages := rest, gossip := g\<rparr>"] assms(2) show ?thesis by auto
  qed (use assms in auto)
qed

lemma drain_publish_frame: "frame (snd (drain_publish A b)) = frame b"
  by (induction b rule: drain_publish_induct [of _ A]) (simp_all add: drain_publish_steps)

lemma republish_frame: "frame (republish A b) = frame b"
  using drain_publish_frame [of A]
  by (simp add: republish_def Let_def split_beta)

text \<open>
  C29: Polled while gossipsub has the items \<open>rs\<close> to report, none of them a command for the swarm,
  the behaviour queues exactly the messages that other peers propagated, in order, behind those
  already queued, and hands the oldest one to the node; it is pending only when there is none.
\<close>

theorem gossip_poll_delivers:
  assumes "yields (gs_poll A) (gossip (republish A b)) rs g'" "list_all swallowed rs"
  shows "\<exists>b'. gossip_poll A b =
      (case gossip_queue b @ received (local_peer_id b) rs of
         [] \<Rightarrow> Some (Pending, b')
       | e # es \<Rightarrow> Some (Ready (GenerateEvent e), b'\<lparr>gossip_queue := es\<rparr>))"
proof -
  have "gossip_queue (republish A b) = gossip_queue b"
    "local_peer_id (republish A b) = local_peer_id b"
    using republish_frame [of A b] by (simp_all add: frame_def)
  with gossip_loop_yields [OF assms] show ?thesis
    by (auto simp: gossip_poll_def pop_event_or_pending_def pop_event_def set_gossip_queue_def
        split: list.splits)
qed

lemma gossip_poll_delivers_witness:
  "\<exists>b'. gossip_poll sample_gossip
       (gossip_new ''a'' (0, [GenerateEvent (Message ''b'' ''t'' [1]), OtherToSwarm (),
          GenerateEvent (Message ''a'' ''t'' [2])], 0) False)
     = Some (Ready (GenerateEvent (MsgReceived ''t'' [1])), b'\<lparr>gossip_queue := []\<rparr>)"
proof -
  let ?rs = "[GenerateEvent (Message ''b'' ''t'' [1]), OtherToSwarm (), GenerateEvent (Message ''a'' ''t'' [2])]"
  let ?b = "gossip_new ''a'' (0, ?rs, 0) False"
  have "yields (gs_poll sample_gossip) (gossip (republish sample_gossip ?b)) ?rs (0, [], 0)"
    by (auto simp: republish_def gossip_new_def sample_gossip_def intro!: yields.intros)
  from gossip_poll_delivers [OF this] show ?thesis
    by (simp add: gossip_new_def received_def List.map_filter_def)
qed

section \<open>No message is lost\<close>

text \<open>
  gossipsub together with the log of the messages it has accepted: the operations are those of
  \<open>A\<close>, and a \<open>publish\<close> that succeeds is written down.
\<close>

definition logged ::
    "('g, 'i, 'h, 'a, 'x, 'r) gossip_api
      \<Rightarrow> ('g \<times> (string \<times> bytes) list, 'i, 'h, 'a, 'x, 'r) gossip_api" where
  "logged A =
     \<lparr>gs_publish = (\<lambda>topic contents s.
        (fst (gs_publish A topic contents (fst s)), snd (gs_publish A topic contents (fst s)),
         if fst (gs_publish A topic contents (fst s)) then snd s @ [(topic, contents)] else snd s)),
      gs_subscribe = (\<lambda>topic. beside_log (gs_subscribe A topic)),
      gs_unsubscribe = (\<lambda>topic. beside_log (gs_unsubscribe A topic)),
      gs_add_explicit_peer = (\<lambda>peer s. (gs_add_explicit_peer A peer (fst s), snd s)),
      gs_poll = beside_log (gs_poll A),
      gs_now = beside_log (gs_now A),
      gs_callback = (\<lambda>cb. beside_log (gs_callback A cb)),
      gs_on_swarm_event = (\<lambda>event s. (gs_on_swarm_event A event (fst s), snd s))\<rparr>"

text \<open>
  A retry sends the queue in order up to the first message gossipsub refuses, which goes to the
  back; the rest keeps its order.
\<close>

definition drained :: "'m list \<Rightarrow> 'm list \<Rightarrow> bool \<Rightarrow> 'm list \<Rightarrow> bool" where
  "drained q sent ok q' \<longleftrightarrow>
     (if ok then sent = q \<and> q' = [] else \<exists>m rest. q = sent @ m # rest \<and> q' = rest @ [m])"

lemma drain_publish_logged:
  "\<exists>sent. snd (gossip (snd (drain_publish (logged A) b))) = snd (gossip b) @ sent \<and>
     drained (in_progress_messages b) sent (fst (drain_publish (logged A) b))
       (in_progress_messages (snd (drain_publish (logged A) b)))"
proof (induction b rule: drain_publish_induct [of _ "logged A"])
  case (empty b)
  then show ?case by (simp add: drain_publish_Nil drained_def)
next
  case (sent b topic contents rest g)
  then have "snd g = snd (gossip b) @ [(topic, contents)]" by (auto simp: logged_def)
  with sent show ?case by (auto simp: drain_publish_sent drained_def split: if_splits)
next
  case (failed b topic contents rest g)
  then have "snd g = snd (gossip b)" by (auto simp: logged_def)
  with failed show ?case by (simp add: drain_publish_failed drained_def)
qed

text \<open>
  C30: A retry publishes a prefix of the queue, each message once and in order. It reports success
  when that was the whole queue; else the first refused message is moved to the back.
\<close>

theorem drain_publish_in_order:
  "\<exists>sent. snd (gossip (snd (drain_publish (logged A) b))) = snd (gossip b) @ sent \<and>
     drained (in_progress_messages b) sent (fst (drain_publish (logged A) b))
       (in_progress_messages (snd (drain_publish (logged A) b)))"
  by (rule drain_publish_logged)

text \<open>What a message's accounts are: accepted by gossipsub, or waiting for a retry.\<close>

definition accounts :: "('g \<times> (string \<times> bytes) list, 'i, 'h) gossip_bhv \<Rightarrow> (string \<times> bytes) multiset" where
  "accounts b = mset (snd (gossip b)) + mset (in_progress_messages b)"

lemma drained_mset: "drained q sent ok q' \<Longrightarrow> mset sent + mset q' = mset q"
  by (auto simp: drained_def split: if_splits)

lemma accounts_drain [simp]: "accounts (snd (drain_publish (logged A) b)) = accounts b"
  using drain_publish_logged [of A b]
  by (auto simp: accounts_def ac_simps dest: drained_mset)

lemma accounts_unrelated [simp]:
  "accounts (b\<lparr>gossip_queue := es\<rparr>) = accounts b"
  "accounts (b\<lparr>gossip_backoff := bo\<rparr>) = accounts b"
  "accounts (b\<lparr>subscriptions := ss\<rparr>) = accounts b"
  by (simp_all add: accounts_def)

lemma accounts_now [simp]:
  "accounts (b\<lparr>gossip := snd (gs_now (logged A) (gossip b))\<rparr>) = accounts b"
  by (simp add: accounts_def logged_def beside_log_def)

lemma accounts_republish: "accounts (republish (logged A) b) = accounts b"
  by (simp add: republish_def Let_def split_beta)

lemma accounts_publish:
  "enable_republish b \<Longrightarrow>
     accounts (publish (logged A) topic contents b) = accounts b + {#(topic, contents)#}"
  by (auto simp: publish_def Let_def logged_def accounts_def split_beta)

lemma accounts_absorb:
  "accounts (absorb gossip_handle_event r b) = accounts b"
  by (auto simp: absorb_def gossip_handle_event_def split: to_swarm.splits gossipsub_event.splits)

lemma accounts_loop:
  "poll_loop gossip set_gossip (gs_poll (logged A)) gossip_handle_event (\<lambda>_. None)
       (pop_event_or_pending gossip_queue set_gossip_queue) b = Some res
   \<Longrightarrow> accounts (snd res) = accounts b"
proof (induction rule: poll_loop_rule)
  case (pending b k)
  then show ?case
    by (auto simp: pop_event_or_pending_def pop_event_def set_gossip_def set_gossip_queue_def
        logged_def beside_log_def accounts_def split: list.splits)
next
  case (forward b r k out)
  then show ?case by (auto simp: set_gossip_def logged_def beside_log_def accounts_def)
next
  case (exit b r k res)
  then show ?case by simp
next
  case (again b r k res)
  then show ?case
    by (auto simp: set_gossip_def logged_def beside_log_def accounts_absorb, simp add: accounts_def)
qed

lemma poll_loop_enable:
  "poll_loop gossip set_gossip (gs_poll A) gossip_handle_event (\<lambda>_. None)
       (pop_event_or_pending gossip_queue set_gossip_queue) b = Some res
   \<Longrightarrow> enable_republish (snd res) = enable_republish b"
proof (induction rule: poll_loop_rule)
  case (pending b k)
  then show ?case
    by (auto simp: pop_event_or_pending_def pop_event_def set_gossip_def set_gossip_queue_def
        split: list.splits)
next
  case (again b r k res)
  then show ?case
    by (auto simp: absorb_def gossip_handle_event_def set_gossip_def split: to_swarm.splits
        gossipsub_event.splits if_splits)
qed (auto simp: set_gossip_def)

text \<open>The calls the node and the swarm make, in any order.\<close>

datatype ('i, 'a, 'x) gossip_call =
    CallPublish string bytes
  | CallSubscribe string
  | CallUnsubscribe string
  | CallExplicitPeers "'i list"
  | CallPoll
  | CallCallback "('i, 'a, 'x) callback"
  | CallSwarmEvent 'x

fun gossip_apply ::
    "('g, 'i, 'h, 'a, 'x, 'r) gossip_api \<Rightarrow> ('i, 'a, 'x) gossip_call \<Rightarrow> ('g, 'i, 'h) gossip_bhv
      \<Rightarrow> ('g, 'i, 'h) gossip_bhv option" where
  "gossip_apply A (CallPublish topic contents) b = Some (publish A topic contents b)"
| "gossip_apply A (CallSubscribe topic) b = Some (subscribe A topic b)"
| "gossip_apply A (CallUnsubscribe topic) b = Some (unsubscribe A topic b)"
| "gossip_apply A (CallExplicitPeers peers) b = Some (add_explicit_peers A peers b)"
| "gossip_apply A CallPoll b = map_option snd (gossip_poll A b)"
| "gossip_apply A (CallCallback cb) b = Some (snd (gossip_callback A cb b))"
| "gossip_apply A (CallSwarmEvent ev) b = Some (gossip_on_swarm_event A ev b)"

fun gossip_calls ::
    "('g, 'i, 'h, 'a, 'x, 'r) gossip_api \<Rightarrow> ('i, 'a, 'x) gossip_call list \<Rightarrow> ('g, 'i, 'h) gossip_bhv
      \<Rightarrow> ('g, 'i, 'h) gossip_bhv option" where
  "gossip_calls A [] b = Some b"
| "gossip_calls A (c # cs) b = Option.bind (gossip_apply A c b) (gossip_calls A cs)"

fun requests :: "('i, 'a, 'x) gossip_call list \<Rightarrow> (string \<times> bytes) list" where
  "requests (CallPublish topic contents # cs) = (topic, contents) # requests cs"
| "requests (c # cs) = requests cs"
| "requests [] = []"

lemma accounts_explicit_peers:
  "accounts (add_explicit_peers (logged A) peers b) = accounts b \<and>
   enable_republish (add_explicit_peers (logged A) peers b) = enable_republish b"
proof (induction peers arbitrary: b)
  case (Cons peer rest)
  then show ?case by (simp add: accounts_def logged_def)
qed simp

lemma gossip_apply_accounts:
  assumes "gossip_apply (logged A) c b = Some b'" "enable_republish b"
  shows "accounts b' = accounts b + mset (requests [c]) \<and> enable_republish b'"
proof (cases c)
  case (CallPublish topic contents)
  then show ?thesis
    using assms accounts_publish [of b A topic contents]
    by (auto simp: publish_def Let_def split_beta)
next
  case CallPoll
  moreover have "enable_republish (republish (logged A) b)"
    using republish_frame [of "logged A" b] assms(2) by (simp add: frame_def)
  ultimately show ?thesis
    using assms(1) accounts_loop [of A] poll_loop_enable [of "logged A"]
    by (auto simp: gossip_poll_def accounts_republish)
next
  case (CallExplicitPeers peers)
  then show ?thesis using assms accounts_explicit_peers [of A peers b] by auto
qed (use assms in \<open>auto simp: subscribe_def unsubscribe_def gossip_callback_def
    gossip_on_swarm_event_def delegate_def set_gossip_def accounts_def logged_def beside_log_def
    Let_def split_beta\<close>)

lemma gossip_apply_returns:
  fixes work :: "'g \<Rightarrow> nat"
  assumes "\<And>g r g'. gs_poll A g = (Ready r, g') \<Longrightarrow> work g' < work g"
  shows "\<exists>b'. gossip_apply (logged A) c b = Some b'"
proof (cases c)
  case CallPoll
  have "\<exists>res. poll_loop gossip set_gossip (gs_poll (logged A)) gossip_handle_event (\<lambda>_. None)
     (pop_event_or_pending gossip_queue set_gossip_queue) (republish (logged A) b) = Some res"
  proof (rule gossip_wrapper.poll_loop_terminates [where work = "\<lambda>g. work (fst g)"])
    show "work (fst g') < work (fst g)" if "gs_poll (logged A) g = (Ready r, g')" for g r g'
      using that assms [of "fst g" r "fst g'"] by (cases "gs_poll A (fst g)") (auto simp: logged_def beside_log_def)
    show "work (fst (gossip (gossip_handle_event ev b))) \<le> work (fst (gossip b))" for ev b
      by (auto simp: gossip_handle_event_def split: gossipsub_event.splits)
  qed
  with CallPoll show ?thesis by (auto simp: gossip_poll_def)
qed simp_all

lemma gossip_calls_accounts:
  assumes "\<And>g r g'. gs_poll A g = (Ready r, g') \<Longrightarrow> (work g' :: nat) < work g"
    and "enable_republish b"
  shows "\<exists>b'. gossip_calls (logged A) cs b = Some b' \<and> accounts b' = accounts b + mset (requests cs)"
  using assms(2)
proof (induction cs arbitrary: b)
  case (Cons c cs)
  obtain b1 where b1: "gossip_apply (logged A) c b = Some b1"
    using gossip_apply_returns [of A work] assms(1) by blast
  have "accounts b1 = accounts b + mset (requests [c])" "enable_republish b1"
    using gossip_apply_accounts [OF b1 Cons.prems] by simp_all
  moreover have "mset (requests (c # cs)) = mset (requests [c]) + mset (requests cs)"
    by (cases c) simp_all
  ultimately show ?case using Cons.IH [of b1] b1 by (auto simp: ac_simps)
qed simp

text \<open>
  C4: With republishing on, whatever the order of calls, every message the node published has been
  accepted by gossipsub or waits for a retry, exactly once: none is lost or sent twice. The calls
  return when gossipsub is never ready for ever.
\<close>

theorem gossip_no_message_lost:
  fixes work :: "'g \<Rightarrow> nat"
  assumes "\<And>g r g'. gs_poll A g = (Ready r, g') \<Longrightarrow> work g' < work g"
  shows "\<exists>b. gossip_calls (logged A) cs (gossip_new me (g, []) True) = Some b \<and>
     mset (snd (gossip b)) + mset (in_progress_messages b) = mset (requests cs)"
  using gossip_calls_accounts [of A work "gossip_new me (g, []) True" cs] assms
  by (auto simp: accounts_def gossip_new_def)

lemma gossip_no_message_lost_witness:
  "\<exists>b. gossip_calls (logged sample_gossip)
       [CallPublish ''t'' [7], CallPoll, CallSwarmEvent (), CallPublish ''u'' [8], CallPoll]
       (gossip_new ''a'' ((1, [], 0), []) True) = Some b \<and>
     mset (snd (gossip b)) + mset (in_progress_messages b) = {#(''t'', [7]), (''u'', [8])#}"
  using gossip_no_message_lost [of sample_gossip "\<lambda>s. length (fst (snd s))"
      "[CallPublish ''t'' [7], CallPoll, CallSwarmEvent (), CallPublish ''u'' [8], CallPoll]"
      "''a''" "(1, [], 0)"] sample_gossip_settles
  by simp

text \<open>
  A subscription that gossipsub refuses is recorded as made: asking for the topic again changes
  nothing and does not reach gossipsub.
\<close>

theorem refused_subscription_recorded:
  assumes "gs_subscribe A topic (gossip b) = (False, g)" "topic \<notin> subscriptions b"
  shows "subscribe A topic b = b\<lparr>gossip := g, subscriptions := insert topic (subscriptions b)\<rparr> \<and>
     subscribe A topic (subscribe A topic b) = subscribe A topic b"
  using assms by (simp add: subscribe_def)

lemma refused_subscription_recorded_witness:
  "subscribe sample_gossip ''t'' (subscribe sample_gossip ''t'' (gossip_new ''a'' (0, [], 0) True))
     = subscribe sample_gossip ''t'' (gossip_new ''a'' (0, [], 0) True)"
proof -
  let ?b = "gossip_new ''a'' (0, [], 0) True"
  have "gs_subscribe sample_gossip ''t'' (gossip ?b) = (False, (0, [], 0))" "''t'' \<notin> subscriptions ?b"
    by (simp_all add: sample_gossip_def gossip_new_def)
  from refused_subscription_recorded [OF this] show ?thesis by (rule conjunct2)
qed

end
