(* ===== verification/Dht.thy ===== *)
theory Dht
  imports PollLoop Backoff "HOL-Library.Multiset"
begin

text \<open>
  \<open>src/behaviours/dht_bhv.rs\<close>: the DHT behaviour, which wraps libp2p's Kademlia with the
  bootstrap procedure and with the queries in progress and queued for a retry. Kademlia's
  operations are the fields of a \<open>kad_api\<close>; its state \<open>'k\<close> also holds the clock, the random
  generator and the one-shot channels the behaviour answers on.
\<close>

section \<open>Kademlia's interface\<close>

datatype get_record_result =
    FoundRecord bytes
  | FinishedWithNoAdditionalRecord
  | GetRecordFailed

datatype bootstrap_result =
    BootstrapOk nat
  | BootstrapTimeout "nat option"

text \<open>A \<open>QueryResult\<close>; of a \<open>Result\<close> whose contents are not read only whether it is \<open>Ok\<close>.\<close>

datatype query_result =
    PutRecordResult bool
  | GetClosestPeersResult bool
  | GetRecordResult get_record_result
  | BootstrapResult bootstrap_result
  | OtherQueryResult

datatype ('q, 'i) kad_event =
    OutboundQueryProgressed 'q query_result bool
  | RoutingUpdated 'i
  | OtherKadEvent

text \<open>
  \<open>kd_put_record\<close> takes the key, the value and the quorum and gives \<open>None\<close> for an error.
  \<open>kd_walk\<close> is the order in which the hash maps of the boot nodes are iterated.
\<close>

record ('k, 'q, 'i, 'a, 'x, 'r, 'c) kad_api =
  kd_bootstrap :: "'k \<Rightarrow> bool \<times> 'k"
  kd_add_address :: "'i \<Rightarrow> 'a \<Rightarrow> 'k \<Rightarrow> 'k"
  kd_put_record :: "bytes \<Rightarrow> bytes \<Rightarrow> nat \<Rightarrow> 'k \<Rightarrow> 'q option \<times> 'k"
  kd_get_record :: "bytes \<Rightarrow> 'k \<Rightarrow> 'q \<times> 'k"
  kd_get_closest_peers :: "'i \<Rightarrow> 'k \<Rightarrow> 'q \<times> 'k"
  kd_poll :: "'k \<Rightarrow> (('q, 'i) kad_event, 'x) to_swarm poll \<times> 'k"
  kd_now :: "'k \<Rightarrow> instant \<times> 'k"
  kd_random_peer :: "'k \<Rightarrow> 'i \<times> 'k"
  kd_send :: "'c \<Rightarrow> 'k \<Rightarrow> 'k"
  kd_walk :: "('i \<rightharpoonup> 'a set) \<Rightarrow> ('i \<times> 'a) list"
  kd_callback :: "('i, 'a, 'x) callback \<Rightarrow> 'k \<Rightarrow> 'r \<times> 'k"
  kd_on_swarm_event :: "'x \<Rightarrow> 'k \<Rightarrow> 'k"

section \<open>State\<close>

datatype phase_state = NotStarted | Started | Finished

text \<open>\<open>Bootstrap\<close> and \<open>RandomWalk\<close> have the same fields.\<close>

record phase =
  ph_state :: phase_state
  ph_backoff :: backoff

record kad_get_query =
  gq_backoff :: backoff
  gq_key :: bytes
  gq_retry_count :: u8
  gq_records :: "bytes \<rightharpoonup> u64"

record kad_put_query =
  pq_backoff :: backoff
  pq_key :: bytes
  pq_value :: bytes

datatype dht_event = IsBootstrapped

record ('k, 'q, 'i, 'a, 'c) dht_bhv =
  begin_bootstrap :: bool
  bootnodes :: "'i \<rightharpoonup> 'a set"
  dht_queue :: "dht_event list"
  in_progress_get_closest_peers :: "'q \<rightharpoonup> 'c"
  in_progress_put_record_queries :: "'q \<rightharpoonup> kad_put_query"
  in_progress_get_record_queries :: "'q \<rightharpoonup> kad_get_query"
  queued_put_record_queries :: "kad_put_query list"
  queued_get_record_queries :: "kad_get_query list"
  kad_dht :: 'k
  bootstrap :: phase
  random_walk :: phase
  replication_factor :: nat

definition set_kad :: "'k \<Rightarrow> ('k, 'q, 'i, 'a, 'c) dht_bhv \<Rightarrow> ('k, 'q, 'i, 'a, 'c) dht_bhv" where
  "set_kad k b = b\<lparr>kad_dht := k\<rparr>"

definition set_dht_queue ::
    "dht_event list \<Rightarrow> ('k, 'q, 'i, 'a, 'c) dht_bhv \<Rightarrow> ('k, 'q, 'i, 'a, 'c) dht_bhv" where
  "set_dht_queue es b = b\<lparr>dht_queue := es\<rparr>"

definition dht_new :: "'k \<Rightarrow> nat \<Rightarrow> ('k, 'q, 'i, 'a, 'c) dht_bhv outcome" where
  "dht_new kad replication =
     and_then (backoff_new 2 (dur_from_secs 1)) (\<lambda>bo1.
     and_then (backoff_new 2 (dur_from_secs 1)) (\<lambda>bo2.
       Ret \<lparr>begin_bootstrap = False, bootnodes = Map.empty, dht_queue = [],
            in_progress_get_closest_peers = Map.empty,
            in_progress_put_record_queries = Map.empty,
            in_progress_get_record_queries = Map.empty,
            queued_put_record_queries = [], queued_get_record_queries = [], kad_dht = kad,
            bootstrap = \<lparr>ph_state = NotStarted, ph_backoff = bo1\<rparr>,
            random_walk = \<lparr>ph_state = NotStarted, ph_backoff = bo2\<rparr>,
            replication_factor = replication\<rparr>))"

lemma dht_backoff_new:
  "backoff_new 2 (dur_from_secs 1) = Ret \<lparr>reset_val = 1000000000, backoff_factor = 2,
     timeout = 2000000000, started = None\<rparr>"
proof -
  have "dur_from_secs 1 = 1000000000" by (simp add: dur_from_secs_def nanos_per_sec_def)
  moreover have "dur_mul 1000000000 2 = Ret 2000000000"
    by (simp add: dur_mul_def dur_checked_mul_def dur_max_def nanos_per_sec_def)
  ultimately show ?thesis by (simp add: backoff_new_def)
qed

text \<open>Making the behaviour does not panic.\<close>

lemma dht_new_returns: "\<exists>b. dht_new k n = Ret b"
  by (simp add: dht_new_def dht_backoff_new)

section \<open>Operations\<close>

text \<open>\<open>backoff.start_next(result)\<close> and \<open>backoff.is_expired()\<close>: the clock is read when needed.\<close>

definition restart ::
    "('k, 'q, 'i, 'a, 'x, 'r, 'c) kad_api \<Rightarrow> bool \<Rightarrow> backoff \<Rightarrow> 'k \<Rightarrow> backoff \<times> 'k" where
  "restart A result bo k = (let (now, k1) = kd_now A k in (start_next now result bo, k1))"

definition expired ::
    "('k, 'q, 'i, 'a, 'x, 'r, 'c) kad_api \<Rightarrow> backoff \<Rightarrow> 'k \<Rightarrow> bool \<times> 'k" where
  "expired A bo k =
     (if started bo = None then (True, k)
      else (let (now, k1) = kd_now A k in (is_expired now bo, k1)))"

definition dht_begin_bootstrap ::
    "('k, 'q, 'i, 'a, 'c) dht_bhv \<Rightarrow> ('k, 'q, 'i, 'a, 'c) dht_bhv" where
  "dht_begin_bootstrap b = b\<lparr>begin_bootstrap := True\<rparr>"

text \<open>\<open>peer_id.unwrap_or(PeerId::random())\<close> draws the random peer in either case.\<close>

definition lookup_peer ::
    "('k, 'q, 'i, 'a, 'x, 'r, 'c) kad_api \<Rightarrow> 'i option \<Rightarrow> 'c \<Rightarrow> ('k, 'q, 'i, 'a, 'c) dht_bhv
      \<Rightarrow> ('k, 'q, 'i, 'a, 'c) dht_bhv" where
  "lookup_peer A peer_id chan b =
     (let (rnd, k1) = kd_random_peer A (kad_dht b);
          peer = (case peer_id of Some p \<Rightarrow> p | None \<Rightarrow> rnd);
          (query_id, k2) = kd_get_closest_peers A peer k1
      in b\<lparr>kad_dht := k2,
           in_progress_get_closest_peers := (in_progress_get_closest_peers b)(query_id \<mapsto> chan)\<rparr>)"

definition dht_add_address ::
    "('k, 'q, 'i, 'a, 'x, 'r, 'c) kad_api \<Rightarrow> 'i \<Rightarrow> 'a \<Rightarrow> ('k, 'q, 'i, 'a, 'c) dht_bhv
      \<Rightarrow> ('k, 'q, 'i, 'a, 'c) dht_bhv" where
  "dht_add_address A peer_id address b = b\<lparr>kad_dht := kd_add_address A peer_id address (kad_dht b)\<rparr>"

definition add_bootnodes ::
    "'i \<Rightarrow> 'a \<Rightarrow> ('k, 'q, 'i, 'a, 'c) dht_bhv \<Rightarrow> ('k, 'q, 'i, 'a, 'c) dht_bhv" where
  "add_bootnodes peer_id address b =
     b\<lparr>bootnodes := (bootnodes b)(peer_id \<mapsto>
         (case bootnodes b peer_id of Some val \<Rightarrow> insert address val | None \<Rightarrow> {address}))\<rparr>"

definition put_record ::
    "('k, 'q, 'i, 'a, 'x, 'r, 'c) kad_api \<Rightarrow> kad_put_query \<Rightarrow> ('k, 'q, 'i, 'a, 'c) dht_bhv
      \<Rightarrow> ('k, 'q, 'i, 'a, 'c) dht_bhv" where
  "put_record A query b =
     (if \<not> begin_bootstrap b
      then (case kd_put_record A (pq_key query) (pq_value query) (replication_factor b) (kad_dht b) of
              (Some query_id, k) \<Rightarrow>
                b\<lparr>kad_dht := k,
                  in_progress_put_record_queries :=
                    (in_progress_put_record_queries b)(query_id \<mapsto> query)\<rparr>
            | (None, k) \<Rightarrow>
                (let (bo, k1) = restart A False (pq_backoff query) k
                 in b\<lparr>kad_dht := k1,
                      queued_put_record_queries :=
                        queued_put_record_queries b @ [query\<lparr>pq_backoff := bo\<rparr>]\<rparr>))
      else b\<lparr>queued_put_record_queries := queued_put_record_queries b @ [query]\<rparr>)"

definition handle_put_query ::
    "('k, 'q, 'i, 'a, 'x, 'r, 'c) kad_api \<Rightarrow> bool \<Rightarrow> 'q \<Rightarrow> ('k, 'q, 'i, 'a, 'c) dht_bhv
      \<Rightarrow> ('k, 'q, 'i, 'a, 'c) dht_bhv" where
  "handle_put_query A ok qid b =
     (case in_progress_put_record_queries b qid of
        None \<Rightarrow> b
      | Some query \<Rightarrow>
          (let b1 = b\<lparr>in_progress_put_record_queries := (in_progress_put_record_queries b)(qid := None)\<rparr>
           in if \<not> ok
              then (let (bo, k) = restart A False (pq_backoff query) (kad_dht b1)
                    in b1\<lparr>kad_dht := k,
                          queued_put_record_queries :=
                            queued_put_record_queries b1 @ [query\<lparr>pq_backoff := bo\<rparr>]\<rparr>)
              else b1))"

definition get_record ::
    "('k, 'q, 'i, 'a, 'x, 'r, 'c) kad_api \<Rightarrow> bytes \<Rightarrow> backoff \<Rightarrow> u8 \<Rightarrow> ('k, 'q, 'i, 'a, 'c) dht_bhv
      \<Rightarrow> ('k, 'q, 'i, 'a, 'c) dht_bhv" where
  "get_record A key bo retry_count b =
     (if retry_count = 0 then b
      else (let (query_id, k) = kd_get_record A key (kad_dht b);
                query = \<lparr>gq_backoff = bo, gq_key = key, gq_retry_count = retry_count - 1,
                         gq_records = Map.empty\<rparr>
            in b\<lparr>kad_dht := k,
                 in_progress_get_record_queries :=
                   (in_progress_get_record_queries b)(query_id \<mapsto> query)\<rparr>))"

definition count_record :: "get_record_result \<Rightarrow> kad_get_query \<Rightarrow> kad_get_query" where
  "count_record result query =
     (case result of
        FoundRecord value \<Rightarrow>
          query\<lparr>gq_records := (gq_records query)(value \<mapsto>
            (case gq_records query value of Some num_entries \<Rightarrow> num_entries + 1 | None \<Rightarrow> 1))\<rparr>
      | _ \<Rightarrow> query)"

definition handle_get_query ::
    "('k, 'q, 'i, 'a, 'x, 'r, 'c) kad_api \<Rightarrow> get_record_result \<Rightarrow> 'q \<Rightarrow> bool
      \<Rightarrow> ('k, 'q, 'i, 'a, 'c) dht_bhv \<Rightarrow> ('k, 'q, 'i, 'a, 'c) dht_bhv" where
  "handle_get_query A result qid last_step b =
     (case in_progress_get_record_queries b qid of
        None \<Rightarrow> b
      | Some query \<Rightarrow>
          (let query1 = count_record result query;
               b1 = b\<lparr>in_progress_get_record_queries :=
                       (in_progress_get_record_queries b)(qid \<mapsto> query1)\<rparr>
           in if last_step
              then get_record A (gq_key query1) (gq_backoff query1) (gq_retry_count query1)
                     (b1\<lparr>in_progress_get_record_queries :=
                           (in_progress_get_record_queries b1)(qid := None)\<rparr>)
              else b1))"

text \<open>\<open>for (peer, addrs) in self.bootnodes.clone() { for addr in addrs { .. } }\<close>\<close>

definition readd_bootnodes ::
    "('k, 'q, 'i, 'a, 'x, 'r, 'c) kad_api \<Rightarrow> ('k, 'q, 'i, 'a, 'c) dht_bhv
      \<Rightarrow> ('k, 'q, 'i, 'a, 'c) dht_bhv" where
  "readd_bootnodes A b =
     b\<lparr>kad_dht := fold (\<lambda>(peer, addr) k. kd_add_address A peer addr k)
         (kd_walk A (bootnodes b)) (kad_dht b)\<rparr>"

text \<open>Both arms of the \<open>match r\<close> do the same.\<close>

definition handle_closest_peers ::
    "('k, 'q, 'i, 'a, 'x, 'r, 'c) kad_api \<Rightarrow> 'q \<Rightarrow> ('k, 'q, 'i, 'a, 'c) dht_bhv
      \<Rightarrow> ('k, 'q, 'i, 'a, 'c) dht_bhv" where
  "handle_closest_peers A qid b =
     (case in_progress_get_closest_peers b qid of
        Some chan \<Rightarrow>
          b\<lparr>in_progress_get_closest_peers := (in_progress_get_closest_peers b)(qid := None),
            kad_dht := kd_send A chan (kad_dht b)\<rparr>
      | None \<Rightarrow>
          (let (bo, k) = restart A True (ph_backoff (random_walk b)) (kad_dht b)
           in b\<lparr>random_walk := \<lparr>ph_state = NotStarted, ph_backoff = bo\<rparr>, kad_dht := k\<rparr>))"

text \<open>The arms of the \<open>match\<close>, with the \<open>step\<close> field's \<open>last\<close> in the patterns.\<close>

definition dht_handle_event ::
    "('k, 'q, 'i, 'a, 'x, 'r, 'c) kad_api \<Rightarrow> ('q, 'i) kad_event \<Rightarrow> ('k, 'q, 'i, 'a, 'c) dht_bhv
      \<Rightarrow> ('k, 'q, 'i, 'a, 'c) dht_bhv" where
  "dht_handle_event A event b =
     (case event of
        OutboundQueryProgressed qid (PutRecordResult ok) last_step \<Rightarrow>
          if last_step then handle_put_query A ok qid b else b
      | OutboundQueryProgressed qid (GetClosestPeersResult ok) last_step \<Rightarrow>
          if last_step then handle_closest_peers A qid b else b
      | OutboundQueryProgressed qid (GetRecordResult result) last_step \<Rightarrow>
          handle_get_query A result qid last_step b
      | OutboundQueryProgressed qid (BootstrapResult (BootstrapOk num_remaining)) last_step \<Rightarrow>
          if last_step \<and> num_remaining = 0
          then b\<lparr>bootstrap := (bootstrap b)\<lparr>ph_state := Finished\<rparr>,
                 dht_queue := dht_queue b @ [IsBootstrapped],
                 begin_bootstrap := False\<rparr>
          else b
      | OutboundQueryProgressed qid (BootstrapResult (BootstrapTimeout num_remaining)) last_step \<Rightarrow>
          (let b1 = (if num_remaining = None then readd_bootnodes A b else b);
               (bo, k) = restart A True (ph_backoff (bootstrap b1)) (kad_dht b1)
           in b1\<lparr>bootstrap := \<lparr>ph_state = NotStarted, ph_backoff = bo\<rparr>, kad_dht := k\<rparr>)
      | _ \<Rightarrow> b)"

section \<open>Polling\<close>

text \<open>The start of the bootstrap; the clock is read only when the state allows it.\<close>

definition bootstrap_step ::
    "('k, 'q, 'i, 'a, 'x, 'r, 'c) kad_api \<Rightarrow> ('k, 'q, 'i, 'a, 'c) dht_bhv
      \<Rightarrow> ('k, 'q, 'i, 'a, 'c) dht_bhv" where
  "bootstrap_step A b =
     (if ph_state (bootstrap b) = NotStarted
      then (let (exp, k) = expired A (ph_backoff (bootstrap b)) (kad_dht b);
                b1 = b\<lparr>kad_dht := k\<rparr>
            in if exp \<and> begin_bootstrap b1
               then (let (ok, k2) = kd_bootstrap A (kad_dht b1);
                         b2 = b1\<lparr>kad_dht := k2\<rparr>
                     in if ok then b2\<lparr>bootstrap := (bootstrap b2)\<lparr>ph_state := Started\<rparr>\<rparr>
                        else readd_bootnodes A b2)
               else b1)
      else b)"

text \<open>
  The two \<open>while let\<close> loops pop a query and push it back when it is not due, so they need not
  end.
\<close>

definition drain_get_step ::
    "('k, 'q, 'i, 'a, 'x, 'r, 'c) kad_api \<Rightarrow> kad_get_query \<Rightarrow> ('k, 'q, 'i, 'a, 'c) dht_bhv
      \<Rightarrow> ('k, 'q, 'i, 'a, 'c) dht_bhv" where
  "drain_get_step A req b =
     (let (exp, k) = expired A (gq_backoff req) (kad_dht b);
          b1 = b\<lparr>kad_dht := k\<rparr>
      in if exp then get_record A (gq_key req) (gq_backoff req) (gq_retry_count req) b1
         else b1\<lparr>queued_get_record_queries := queued_get_record_queries b1 @ [req]\<rparr>)"

partial_function (option) drain_get ::
    "('k, 'q, 'i, 'a, 'x, 'r, 'c) kad_api \<Rightarrow> ('k, 'q, 'i, 'a, 'c) dht_bhv
      \<Rightarrow> ('k, 'q, 'i, 'a, 'c) dht_bhv option" where
  "drain_get A b =
     (case queued_get_record_queries b of
        [] \<Rightarrow> Some b
      | req # rest \<Rightarrow> drain_get A (drain_get_step A req (b\<lparr>queued_get_record_queries := rest\<rparr>)))"

definition drain_put_step ::
    "('k, 'q, 'i, 'a, 'x, 'r, 'c) kad_api \<Rightarrow> kad_put_query \<Rightarrow> ('k, 'q, 'i, 'a, 'c) dht_bhv
      \<Rightarrow> ('k, 'q, 'i, 'a, 'c) dht_bhv" where
  "drain_put_step A req b =
     (let (exp, k) = expired A (pq_backoff req) (kad_dht b);
          b1 = b\<lparr>kad_dht := k\<rparr>
      in if exp then put_record A req b1
         else b1\<lparr>queued_put_record_queries := queued_put_record_queries b1 @ [req]\<rparr>)"

partial_function (option) drain_put ::
    "('k, 'q, 'i, 'a, 'x, 'r, 'c) kad_api \<Rightarrow> ('k, 'q, 'i, 'a, 'c) dht_bhv
      \<Rightarrow> ('k, 'q, 'i, 'a, 'c) dht_bhv option" where
  "drain_put A b =
     (case queued_put_record_queries b of
        [] \<Rightarrow> Some b
      | req # rest \<Rightarrow> drain_put A (drain_put_step A req (b\<lparr>queued_put_record_queries := rest\<rparr>)))"

definition dht_poll ::
    "('k, 'q, 'i, 'a, 'x, 'r, 'c) kad_api \<Rightarrow> ('k, 'q, 'i, 'a, 'c) dht_bhv
      \<Rightarrow> ((dht_event, 'x) to_swarm poll \<times> ('k, 'q, 'i, 'a, 'c) dht_bhv) option" where
  "dht_poll A b =
     Option.bind (drain_get A (bootstrap_step A b)) (\<lambda>b1.
     Option.bind (drain_put A b1) (\<lambda>b2.
       poll_loop kad_dht set_kad (kd_poll A) (dht_handle_event A)
         (pop_event dht_queue set_dht_queue) (\<lambda>b3. (Pending, b3)) b2))"

definition dht_callback ::
    "('k, 'q, 'i, 'a, 'x, 'r, 'c) kad_api \<Rightarrow> ('i, 'a, 'x) callback \<Rightarrow> ('k, 'q, 'i, 'a, 'c) dht_bhv
      \<Rightarrow> 'r \<times> ('k, 'q, 'i, 'a, 'c) dht_bhv" where
  "dht_callback A cb b = delegate kad_dht set_kad (kd_callback A cb) b"

definition dht_on_swarm_event ::
    "('k, 'q, 'i, 'a, 'x, 'r, 'c) kad_api \<Rightarrow> 'x \<Rightarrow> ('k, 'q, 'i, 'a, 'c) dht_bhv
      \<Rightarrow> ('k, 'q, 'i, 'a, 'c) dht_bhv" where
  "dht_on_swarm_event A event b =
     snd (delegate kad_dht set_kad (\<lambda>k. ((), kd_on_swarm_event A event k)) b)"

section \<open>The behaviour is an event wrapper\<close>

fun dht_new_events :: "('q, 'i) kad_event \<Rightarrow> ('k, 'q, 'i, 'a, 'c) dht_bhv \<Rightarrow> dht_event list" where
  "dht_new_events (OutboundQueryProgressed qid (BootstrapResult (BootstrapOk n)) last_step) b =
     (if last_step \<and> n = 0 then [IsBootstrapped] else [])"
| "dht_new_events ev b = []"

lemma put_record_queue [simp]: "dht_queue (put_record A query b) = dht_queue b"
  by (simp add: put_record_def Let_def split: prod.splits option.splits)

lemma get_record_queue [simp]: "dht_queue (get_record A key bo n b) = dht_queue b"
  by (simp add: get_record_def Let_def split: prod.splits)

lemma handle_put_query_queue [simp]: "dht_queue (handle_put_query A ok qid b) = dht_queue b"
  by (simp add: handle_put_query_def Let_def split: prod.splits option.splits)

lemma handle_get_query_queue [simp]: "dht_queue (handle_get_query A r qid l b) = dht_queue b"
  by (simp add: handle_get_query_def Let_def split: prod.splits option.splits)

lemma handle_closest_peers_queue [simp]: "dht_queue (handle_closest_peers A qid b) = dht_queue b"
  by (simp add: handle_closest_peers_def Let_def split: prod.splits option.splits)

lemma readd_bootnodes_queue [simp]: "dht_queue (readd_bootnodes A b) = dht_queue b"
  by (simp add: readd_bootnodes_def)

lemma dht_handle_event_queue:
  "dht_queue (dht_handle_event A ev b) = dht_queue b @ dht_new_events ev b"
  by (auto simp: dht_handle_event_def Let_def split: kad_event.splits query_result.splits
      bootstrap_result.splits prod.splits)

interpretation dht_wrapper: event_wrapper kad_dht set_kad dht_queue set_dht_queue
  "dht_handle_event A" dht_new_events "pop_event dht_queue set_dht_queue" "\<lambda>b. (Pending, b)"
  for A :: "('k, 'q, 'i, 'a, 'x, 'r, 'c) kad_api"
  by unfold_locales (simp_all add: set_kad_def set_dht_queue_def dht_handle_event_queue)

section \<open>An example of a Kademlia\<close>

text \<open>
  Query ids count up, the clock ticks at every reading, the store accepts the values that
  satisfy \<open>fits\<close>, and there are no events.
\<close>

definition sample_kad ::
    "(bytes \<Rightarrow> bool) \<Rightarrow> (nat \<times> instant, nat, string, string, unit, unit, nat) kad_api" where
  "sample_kad fits =
     \<lparr>kd_bootstrap = (\<lambda>k. (True, k)),
      kd_add_address = (\<lambda>peer addr k. k),
      kd_put_record = (\<lambda>key v n (ids, now). if fits v then (Some ids, Suc ids, now) else (None, ids, now)),
      kd_get_record = (\<lambda>key (ids, now). (ids, Suc ids, now)),
      kd_get_closest_peers = (\<lambda>peer (ids, now). (ids, Suc ids, now)),
      kd_poll = (\<lambda>k. (Pending, k)),
      kd_now = (\<lambda>(ids, now). (now, ids, Suc now)),
      kd_random_peer = (\<lambda>k. (''r'', k)),
      kd_send = (\<lambda>chan k. k),
      kd_walk = (\<lambda>m. []),
      kd_callback = (\<lambda>cb k. ((), k)),
      kd_on_swarm_event = (\<lambda>ev k. k)\<rparr>"

definition sample_dht :: "(nat \<times> instant, nat, string, string, nat) dht_bhv" where
  "sample_dht = returned (dht_new (0, 0) 1)"

lemma sample_dht_new: "dht_new (0, 0) 1 = Ret sample_dht"
  by (simp add: sample_dht_def dht_new_def dht_backoff_new)

lemmas sample_dht_eval = sample_dht_def dht_new_def dht_backoff_new

section \<open>The bootstrap flag and the event queue\<close>

text \<open>
  The fields the bootstrap procedure is about; the rest of the operations leave them alone.
\<close>

definition boot :: "('k, 'q, 'i, 'a, 'c) dht_bhv \<Rightarrow> bool \<times> phase_state" where
  "boot b = (begin_bootstrap b, ph_state (bootstrap b))"

definition boot_ok :: "('k, 'q, 'i, 'a, 'c) dht_bhv \<Rightarrow> bool" where
  "boot_ok b \<longleftrightarrow> (ph_state (bootstrap b) = Started \<longrightarrow> begin_bootstrap b)"

text \<open>What holds between any two calls.\<close>

definition dht_rest :: "('k, 'q, 'i, 'a, 'c) dht_bhv \<Rightarrow> bool" where
  "dht_rest b \<longleftrightarrow> boot_ok b \<and> queued_get_record_queries b = [] \<and> dht_queue b = []"

text \<open>What the loop keeps, the event queue aside.\<close>

definition loop_ok :: "('k, 'q, 'i, 'a, 'c) dht_bhv \<Rightarrow> bool" where
  "loop_ok b \<longleftrightarrow> boot_ok b \<and> queued_get_record_queries b = []"

lemmas loop_ok_defs = loop_ok_def boot_ok_def

lemma put_record_loop_ok [simp]: "loop_ok (put_record A query b) = loop_ok b"
  by (simp add: put_record_def loop_ok_defs Let_def split: prod.splits option.splits)

lemma get_record_loop_ok [simp]: "loop_ok (get_record A key bo n b) = loop_ok b"
  by (simp add: get_record_def loop_ok_defs Let_def split: prod.splits)

lemma handle_put_query_loop_ok [simp]: "loop_ok (handle_put_query A ok qid b) = loop_ok b"
  by (simp add: handle_put_query_def loop_ok_defs Let_def split: prod.splits option.splits)

lemma loop_ok_in_progress_get [simp]:
  "loop_ok (b\<lparr>in_progress_get_record_queries := m\<rparr>) = loop_ok b"
  by (simp add: loop_ok_defs)

lemma handle_get_query_loop_ok [simp]: "loop_ok (handle_get_query A r qid l b) = loop_ok b"
  by (simp add: handle_get_query_def Let_def split: prod.splits option.splits)

lemma handle_closest_peers_loop_ok [simp]: "loop_ok (handle_closest_peers A qid b) = loop_ok b"
  by (simp add: handle_closest_peers_def loop_ok_defs Let_def split: prod.splits option.splits)

lemma readd_bootnodes_loop_ok [simp]: "loop_ok (readd_bootnodes A b) = loop_ok b"
  by (simp add: readd_bootnodes_def loop_ok_defs)

lemma set_kad_loop_ok [simp]: "loop_ok (set_kad k b) = loop_ok b" "loop_ok (b\<lparr>kad_dht := k\<rparr>) = loop_ok b"
  by (simp_all add: loop_ok_defs set_kad_def)

lemma loop_ok_phase:
  "ph_state ph \<noteq> Started \<Longrightarrow> loop_ok b \<Longrightarrow> loop_ok (b\<lparr>bootstrap := ph, kad_dht := k\<rparr>)"
  by (simp add: loop_ok_defs)

lemma readd_bootnodes_frame [simp]:
  "queued_get_record_queries (readd_bootnodes A b) = queued_get_record_queries b"
  "queued_put_record_queries (readd_bootnodes A b) = queued_put_record_queries b"
  "begin_bootstrap (readd_bootnodes A b) = begin_bootstrap b"
  "bootstrap (readd_bootnodes A b) = bootstrap b"
  by (simp_all add: readd_bootnodes_def)

lemma dht_handle_event_loop_ok: "loop_ok b \<Longrightarrow> loop_ok (dht_handle_event A ev b)"
  by (auto simp: dht_handle_event_def Let_def loop_ok_phase split: kad_event.splits
      query_result.splits bootstrap_result.splits prod.splits)
    (auto simp: loop_ok_defs)

lemma bootstrap_step_loop_ok: "loop_ok b \<Longrightarrow> loop_ok (bootstrap_step A b)"
  by (auto simp: bootstrap_step_def Let_def split: prod.splits) (auto simp: loop_ok_defs)

lemma bootstrap_step_queues [simp]:
  "dht_queue (bootstrap_step A b) = dht_queue b"
  "queued_put_record_queries (bootstrap_step A b) = queued_put_record_queries b"
  "begin_bootstrap (bootstrap_step A b) = begin_bootstrap b"
  by (auto simp: bootstrap_step_def readd_bootnodes_def Let_def split: prod.splits)

lemma drain_put_induct [consumes 1, case_names empty step]:
  assumes "drain_put A b = Some b'"
    and empty: "\<And>b. queued_put_record_queries b = [] \<Longrightarrow> P b b"
    and step: "\<And>b req rest b'. queued_put_record_queries b = req # rest \<Longrightarrow>
      P (drain_put_step A req (b\<lparr>queued_put_record_queries := rest\<rparr>)) b' \<Longrightarrow> P b b'"
  shows "P b b'"
proof (rule drain_put.raw_induct [where P = "\<lambda>api b b'. api = A \<longrightarrow> P b b'", OF _ assms(1), rule_format])
  fix f api b b'
  assume IH: "\<And>api b b'. f api b = Some b' \<Longrightarrow> api = A \<Longrightarrow> P b b'"
    and body: "(case queued_put_record_queries b of [] \<Rightarrow> Some b
      | req # rest \<Rightarrow> f api (drain_put_step api req (b\<lparr>queued_put_record_queries := rest\<rparr>))) = Some b'"
    and "api = A"
  then show "P b b'"
    using empty step by (auto split: list.splits)
qed simp_all

lemma loop_ok_queued_put [simp]:
  "loop_ok (b\<lparr>queued_put_record_queries := q\<rparr>) = loop_ok b"
  "loop_ok (b\<lparr>kad_dht := k, queued_put_record_queries := q\<rparr>) = loop_ok b"
  by (simp_all add: loop_ok_defs)

lemma drain_put_step_loop_ok [simp]: "loop_ok (drain_put_step A req b) = loop_ok b"
  by (simp add: drain_put_step_def Let_def split: prod.splits)

lemma drain_put_step_queue [simp]: "dht_queue (drain_put_step A req b) = dht_queue b"
  by (simp add: drain_put_step_def Let_def split: prod.splits)

lemma drain_put_keeps:
  "drain_put A b = Some b' \<Longrightarrow> loop_ok b' = loop_ok b \<and> dht_queue b' = dht_queue b \<and>
     queued_put_record_queries b' = []"
  by (induction rule: drain_put_induct) simp_all

lemma drain_get_empty: "queued_get_record_queries b = [] \<Longrightarrow> drain_get A b = Some b"
  by (subst drain_get.simps) simp

lemma dht_new_events_cases: "dht_new_events ev b = [] \<or> dht_new_events ev b = [IsBootstrapped]"
  by (induction ev b rule: dht_new_events.induct) simp_all

lemma absorb_queue:
  "dht_queue b = [] \<Longrightarrow> dht_queue (absorb (dht_handle_event A) r (set_kad k b)) = [] \<or>
     dht_queue (absorb (dht_handle_event A) r (set_kad k b)) = [IsBootstrapped]"
  using dht_new_events_cases [of _ "set_kad k b"]
  by (cases r) (simp_all add: absorb_def dht_handle_event_queue)

lemma absorb_loop_ok:
  "loop_ok b \<Longrightarrow> loop_ok (absorb (dht_handle_event A) r (set_kad k b))"
  by (simp add: absorb_def dht_handle_event_loop_ok split: to_swarm.splits)

lemma dht_loop_rest:
  "poll_loop kad_dht set_kad (kd_poll A) (dht_handle_event A)
     (pop_event dht_queue set_dht_queue) (\<lambda>b. (Pending, b)) b = Some res
   \<Longrightarrow> loop_ok b \<Longrightarrow> dht_queue b = [] \<Longrightarrow> dht_rest (snd res)"
proof (induction rule: poll_loop_rule)
  case (pending b k)
  then show ?case by (simp add: dht_rest_def loop_ok_defs set_kad_def)
next
  case (forward b r k out)
  then show ?case by (simp add: dht_rest_def loop_ok_defs set_kad_def)
next
  case (exit b r k res)
  with absorb_queue [of b A r k] absorb_loop_ok [of b A r k] show ?case
    by (auto simp: pop_event_def dht_rest_def loop_ok_defs set_dht_queue_def split: list.splits)
next
  case (again b r k res)
  then show ?case
    using absorb_loop_ok [of b A r k] by (auto simp: pop_event_def split: list.splits)
qed

lemma dht_poll_rest: "dht_poll A b = Some res \<Longrightarrow> dht_rest b \<Longrightarrow> dht_rest (snd res)"
proof -
  assume poll: "dht_poll A b = Some res" and rest: "dht_rest b"
  then have "loop_ok b" "dht_queue b = []" by (simp_all add: loop_ok_def dht_rest_def)
  then have ok: "loop_ok (bootstrap_step A b)" "dht_queue (bootstrap_step A b) = []"
    by (simp_all add: bootstrap_step_loop_ok)
  then have "drain_get A (bootstrap_step A b) = Some (bootstrap_step A b)"
    by (simp add: drain_get_empty loop_ok_def)
  with poll ok show ?thesis
    by (auto simp: dht_poll_def Option.bind_eq_Some_conv dest!: drain_put_keeps intro: dht_loop_rest)
qed

text \<open>The calls the node and the swarm make, in any order.\<close>

datatype ('i, 'a, 'x, 'c) dht_call =
    CallBeginBootstrap
  | CallLookupPeer "'i option" 'c
  | CallAddAddress 'i 'a
  | CallAddBootnodes 'i 'a
  | CallPutRecord kad_put_query
  | CallGetRecord bytes backoff u8
  | CallDhtPoll
  | CallDhtCallback "('i, 'a, 'x) callback"
  | CallDhtSwarmEvent 'x

fun dht_apply ::
    "('k, 'q, 'i, 'a, 'x, 'r, 'c) kad_api \<Rightarrow> ('i, 'a, 'x, 'c) dht_call
      \<Rightarrow> ('k, 'q, 'i, 'a, 'c) dht_bhv \<Rightarrow> ('k, 'q, 'i, 'a, 'c) dht_bhv option" where
  "dht_apply A CallBeginBootstrap b = Some (dht_begin_bootstrap b)"
| "dht_apply A (CallLookupPeer peer chan) b = Some (lookup_peer A peer chan b)"
| "dht_apply A (CallAddAddress peer addr) b = Some (dht_add_address A peer addr b)"
| "dht_apply A (CallAddBootnodes peer addr) b = Some (add_bootnodes peer addr b)"
| "dht_apply A (CallPutRecord query) b = Some (put_record A query b)"
| "dht_apply A (CallGetRecord key bo n) b = Some (get_record A key bo n b)"
| "dht_apply A CallDhtPoll b = map_option snd (dht_poll A b)"
| "dht_apply A (CallDhtCallback cb) b = Some (snd (dht_callback A cb b))"
| "dht_apply A (CallDhtSwarmEvent ev) b = Some (dht_on_swarm_event A ev b)"

fun dht_calls ::
    "('k, 'q, 'i, 'a, 'x, 'r, 'c) kad_api \<Rightarrow> ('i, 'a, 'x, 'c) dht_call list
      \<Rightarrow> ('k, 'q, 'i, 'a, 'c) dht_bhv \<Rightarrow> ('k, 'q, 'i, 'a, 'c) dht_bhv option" where
  "dht_calls A [] b = Some b"
| "dht_calls A (c # cs) b = Option.bind (dht_apply A c b) (dht_calls A cs)"

lemma dht_apply_rest: "dht_apply A c b = Some b' \<Longrightarrow> dht_rest b \<Longrightarrow> dht_rest b'"
proof (cases c)
  case CallDhtPoll
  assume "dht_apply A c b = Some b'" "dht_rest b"
  with CallDhtPoll show ?thesis by (auto dest: dht_poll_rest)
qed (auto simp: dht_rest_def boot_ok_def dht_begin_bootstrap_def lookup_peer_def dht_add_address_def
    add_bootnodes_def put_record_def get_record_def dht_callback_def dht_on_swarm_event_def
    delegate_def set_kad_def Let_def split: prod.splits option.splits if_splits)

lemma dht_calls_rest: "dht_calls A cs b = Some b' \<Longrightarrow> dht_rest b \<Longrightarrow> dht_rest b'"
  by (induction cs arbitrary: b) (auto simp: Option.bind_eq_Some_conv dest: dht_apply_rest)

lemma dht_new_rest: "dht_new k n = Ret b \<Longrightarrow> dht_rest b"
  by (auto simp: dht_new_def dht_rest_def boot_ok_def)

text \<open>
  C13: Whatever calls are made on a new behaviour, between two of them a bootstrap that has started
  is one that was asked for, no event waits (the event that the bootstrap is done is handed over
  by the very poll that handles it), and the queue of gets is empty: the retry queue of gets is
  never used.
\<close>

theorem dht_reachable_states:
  assumes "dht_new k n = Ret b0" "dht_calls A cs b0 = Some b"
  shows "(ph_state (bootstrap b) = Started \<longrightarrow> begin_bootstrap b) \<and> dht_queue b = [] \<and>
     queued_get_record_queries b = []"
  using dht_calls_rest [OF assms(2) dht_new_rest [OF assms(1)]]
  by (simp add: dht_rest_def boot_ok_def)

lemma dht_reachable_states_witness:
  "\<exists>b. dht_calls (sample_kad (\<lambda>_. True)) [CallBeginBootstrap, CallGetRecord [1] backoff_default 2, CallDhtPoll]
       sample_dht = Some b \<and>
     ph_state (bootstrap b) = Started \<and> begin_bootstrap b \<and> dht_queue b = []"
proof -
  let ?A = "sample_kad (\<lambda>_. True)"
  have "\<exists>b. dht_calls ?A [CallBeginBootstrap, CallGetRecord [1] backoff_default 2, CallDhtPoll] sample_dht = Some b \<and>
      ph_state (bootstrap b) = Started"
    by (simp add: sample_dht_eval dht_begin_bootstrap_def get_record_def sample_kad_def
        dht_poll_def bootstrap_step_def expired_def drain_get_empty drain_put.simps poll_loop.simps set_kad_def)
  with dht_reachable_states [OF sample_dht_new] show ?thesis by blast
qed

section \<open>Polls that never return\<close>

text \<open>A set of states the retry loop for puts does not leave: if it returns, it was not in it.\<close>

lemma drain_put_stuck:
  assumes "stuck b" "\<And>b. stuck b \<Longrightarrow> queued_put_record_queries b \<noteq> []"
    and "\<And>b req rest. stuck b \<Longrightarrow> queued_put_record_queries b = req # rest \<Longrightarrow>
      stuck (drain_put_step A req (b\<lparr>queued_put_record_queries := rest\<rparr>))"
  shows "drain_put A b = None"
proof (rule ccontr)
  assume "drain_put A b \<noteq> None"
  then obtain b' where "drain_put A b = Some b'" by blast
  then have "\<not> stuck b"
    by (induction rule: drain_put_induct) (use assms(2,3) in blast)+
  with assms(1) show False by contradiction
qed

lemma drain_get_step_put:
  "queued_put_record_queries (drain_get_step A req b) = queued_put_record_queries b \<and>
     begin_bootstrap (drain_get_step A req b) = begin_bootstrap b"
  by (simp add: drain_get_step_def get_record_def Let_def split: prod.splits)

lemma drain_get_keeps_put:
  assumes "drain_get A b = Some b'"
  shows "queued_put_record_queries b' = queued_put_record_queries b \<and>
     begin_bootstrap b' = begin_bootstrap b"
proof (rule drain_get.raw_induct [where P = "\<lambda>api b b'. queued_put_record_queries b' =
      queued_put_record_queries b \<and> begin_bootstrap b' = begin_bootstrap b", OF _ assms])
  fix f api b b'
  assume IH: "\<And>api b b'. f api b = Some b' \<Longrightarrow>
      queued_put_record_queries b' = queued_put_record_queries b \<and> begin_bootstrap b' = begin_bootstrap b"
    and body: "(case queued_get_record_queries b of [] \<Rightarrow> Some b
      | req # rest \<Rightarrow> f api (drain_get_step api req (b\<lparr>queued_get_record_queries := rest\<rparr>))) = Some b'"
  show "queued_put_record_queries b' = queued_put_record_queries b \<and>
      begin_bootstrap b' = begin_bootstrap b"
  proof (cases "queued_get_record_queries b")
    case (Cons req rest)
    with body have "f api (drain_get_step api req (b\<lparr>queued_get_record_queries := rest\<rparr>)) = Some b'"
      by simp
    from IH [OF this] show ?thesis by (simp add: drain_get_step_put)
  qed (use body in simp)
qed

lemma dht_poll_stuck:
  assumes "\<And>b'. queued_put_record_queries b' = queued_put_record_queries b \<Longrightarrow>
      begin_bootstrap b' = begin_bootstrap b \<Longrightarrow> drain_put A b' = None"
  shows "dht_poll A b = None"
proof (cases "drain_get A (bootstrap_step A b)")
  case (Some b1)
  from drain_get_keeps_put [OF Some] have "drain_put A b1 = None" by (simp add: assms)
  with Some show ?thesis by (simp add: dht_poll_def)
qed (simp add: dht_poll_def)

lemma drain_put_bootstrapping:
  "begin_bootstrap b \<Longrightarrow> queued_put_record_queries b \<noteq> [] \<Longrightarrow> drain_put A b = None"
  by (rule drain_put_stuck [where stuck =
        "\<lambda>b. begin_bootstrap b \<and> queued_put_record_queries b \<noteq> []"])
    (auto simp: drain_put_step_def put_record_def Let_def split: prod.splits)

lemma drain_put_refused:
  assumes refuses: "\<And>n k. fst (kd_put_record A key value n k) = None"
    and queued: "\<exists>q \<in> set (queued_put_record_queries b). pq_key q = key \<and> pq_value q = value"
  shows "drain_put A b = None"
proof (rule drain_put_stuck [where stuck = "\<lambda>b. \<exists>q \<in> set (queued_put_record_queries b).
    pq_key q = key \<and> pq_value q = value"])
  fix b :: "('a, 'b, 'c, 'd, 'g) dht_bhv" and req rest
  assume found: "\<exists>q \<in> set (queued_put_record_queries b). pq_key q = key \<and> pq_value q = value"
    and queue: "queued_put_record_queries b = req # rest"
  let ?b = "b\<lparr>queued_put_record_queries := rest\<rparr>"
  have keeps: "set (queued_put_record_queries b0) \<subseteq> set (queued_put_record_queries (put_record A q b0))"
    for q and b0 :: "('a, 'b, 'c, 'd, 'g) dht_bhv"
    by (auto simp: put_record_def Let_def split: prod.splits option.splits)
  have adds: "\<exists>q' \<in> set (queued_put_record_queries (put_record A req b0)). pq_key q' = key \<and> pq_value q' = value"
    if "pq_key req = key" "pq_value req = value" for b0 :: "('a, 'b, 'c, 'd, 'g) dht_bhv"
    using that refuses [of "replication_factor b0" "kad_dht b0"]
    by (auto simp: put_record_def Let_def split: prod.splits option.splits)
  show "\<exists>q \<in> set (queued_put_record_queries (drain_put_step A req ?b)). pq_key q = key \<and> pq_value q = value"
  proof (cases "pq_key req = key \<and> pq_value req = value")
    case True
    with adds show ?thesis by (auto simp: drain_put_step_def Let_def split: prod.splits)
  next
    case False
    with found queue obtain q where "q \<in> set rest" "pq_key q = key" "pq_value q = value" by auto
    with keeps [of "?b\<lparr>kad_dht := _\<rparr>" req] show ?thesis
      by (fastforce simp: drain_put_step_def Let_def split: prod.splits)
  qed
qed (use queued in auto)

lemma put_record_queues_refused:
  assumes "\<And>n k. fst (kd_put_record A (pq_key q) (pq_value q) n k) = None"
  shows "\<exists>q' \<in> set (queued_put_record_queries (put_record A q b)).
    pq_key q' = pq_key q \<and> pq_value q' = pq_value q"
  using assms [of "replication_factor b" "kad_dht b"]
  by (auto simp: put_record_def Let_def split: prod.splits option.splits)

lemma dht_poll_bootstrapping:
  "begin_bootstrap b \<Longrightarrow> queued_put_record_queries b \<noteq> [] \<Longrightarrow> dht_poll A b = None"
  by (rule dht_poll_stuck) (simp add: drain_put_bootstrapping)

lemma drain_put_holding_refused:
  assumes "\<And>n k. fst (kd_put_record A (pq_key q) (pq_value q) n k) = None"
    and "queued_put_record_queries b' = queued_put_record_queries (put_record A q b)"
  shows "drain_put A b' = None"
  using drain_put_refused [of A "pq_key q" "pq_value q" b'] assms
    put_record_queues_refused [of A q b] by simp

text \<open>
  C15: A put that is asked for while the bootstrap flag is up, or that waits in the queue when
  the flag goes up, makes the next poll spin for ever: the retry loop pops it, finds it due,
  and \<open>put_record\<close> pushes it back at once; nothing the loop does can lower the flag.
\<close>

theorem put_while_bootstrapping_hangs:
  "dht_poll A (put_record A query (dht_begin_bootstrap b)) = None \<and>
   dht_poll A (dht_begin_bootstrap (b\<lparr>queued_put_record_queries := query # queries\<rparr>)) = None"
  by (simp add: dht_poll_bootstrapping dht_begin_bootstrap_def put_record_def)

text \<open>
  C16: A record the local store always refuses (one that is too large) makes every later poll spin
  for ever, whatever else is queued: the retry loop waits for the query's timeout without
  returning, tries again and pushes the query back.
\<close>

theorem put_refused_by_store_hangs:
  assumes "\<And>n k. fst (kd_put_record A (pq_key query) (pq_value query) n k) = None"
  shows "dht_poll A (put_record A query b) = None"
  by (rule dht_poll_stuck) (rule drain_put_holding_refused [OF assms])

lemma put_refused_by_store_hangs_witness:
  "dht_poll (sample_kad (\<lambda>v. length v \<le> 1))
     (put_record (sample_kad (\<lambda>v. length v \<le> 1))
        \<lparr>pq_backoff = backoff_default, pq_key = [1], pq_value = [2, 3]\<rparr> sample_dht)
   = None"
  by (rule put_refused_by_store_hangs) (simp add: sample_kad_def)

section \<open>Puts that can be made\<close>

text \<open>
  The store of the source, libp2p's \<open>MemoryStore\<close>, behind Kademlia: it has a limit on the length of
  a value and one on the number of keys. A put of a shorter value succeeds when the key is stored
  already or there is room for it, under a query id that was not given before; any other put fails
  and changes nothing. Reading the clock changes neither the keys nor the ids.
\<close>

definition store_takes :: "nat \<Rightarrow> nat \<Rightarrow> bytes set \<Rightarrow> bytes \<Rightarrow> bytes \<Rightarrow> bool" where
  "store_takes max_value max_records keys key v \<longleftrightarrow>
     length v < max_value \<and> (key \<in> keys \<or> card keys < max_records)"

definition memory_store ::
    "('k, 'q, 'i, 'a, 'x, 'r, 'c) kad_api \<Rightarrow> nat \<Rightarrow> nat \<Rightarrow> ('k \<Rightarrow> bytes set) \<Rightarrow> ('k \<Rightarrow> 'q set) \<Rightarrow> bool" where
  "memory_store A max_value max_records stored used \<longleftrightarrow>
     (\<forall>key v n k. case kd_put_record A key v n k of
        (None, k') \<Rightarrow> \<not> store_takes max_value max_records (stored k) key v \<and>
          stored k' = stored k \<and> used k' = used k
      | (Some qid, k') \<Rightarrow> store_takes max_value max_records (stored k) key v \<and> qid \<notin> used k \<and>
          stored k' = insert key (stored k) \<and> used k' = insert qid (used k)) \<and>
     (\<forall>k. stored (snd (kd_now A k)) = stored k \<and> used (snd (kd_now A k)) = used k)"

text \<open>
  The clock passes the instant \<open>latest\<close> when it is read often enough. Two readings may be equal.
\<close>

definition clock_passes :: "('k, 'q, 'i, 'a, 'x, 'r, 'c) kad_api \<Rightarrow> instant \<Rightarrow> bool" where
  "clock_passes A latest \<longleftrightarrow> (\<forall>k. \<exists>n. latest < fst (kd_now A (((snd \<circ> kd_now A) ^^ n) k)))"

text \<open>The records whose put is not known to have succeeded, queued or in progress.\<close>

definition record_of :: "kad_put_query \<Rightarrow> bytes \<times> bytes" where
  "record_of q = (pq_key q, pq_value q)"

definition unfinished_puts :: "('k, 'q, 'i, 'a, 'c) dht_bhv \<Rightarrow> (bytes \<times> bytes) multiset" where
  "unfinished_puts b =
     mset (map record_of (queued_put_record_queries b)) +
     image_mset (\<lambda>qid. record_of (the (in_progress_put_record_queries b qid)))
       (mset_set (dom (in_progress_put_record_queries b)))"

definition ids_used :: "('k \<Rightarrow> 'q set) \<Rightarrow> ('k, 'q, 'i, 'a, 'c) dht_bhv \<Rightarrow> bool" where
  "ids_used used b \<longleftrightarrow> finite (dom (in_progress_put_record_queries b)) \<and>
     dom (in_progress_put_record_queries b) \<subseteq> used (kad_dht b)"

definition deadline :: "kad_put_query \<Rightarrow> instant" where
  "deadline q = (case started (pq_backoff q) of None \<Rightarrow> 0 | Some t \<Rightarrow> t + timeout (pq_backoff q))"

lemma image_mset_fresh:
  "finite (dom m) \<Longrightarrow> qid \<notin> dom m \<Longrightarrow>
     image_mset (\<lambda>i. f (the ((m(qid \<mapsto> q)) i))) (mset_set (dom (m(qid \<mapsto> q))))
       = add_mset (f q) (image_mset (\<lambda>i. f (the (m i))) (mset_set (dom m)))"
  by (simp, rule image_mset_cong) auto

lemma memory_store_put:
  "memory_store A max_value max_records stored used \<Longrightarrow>
     case kd_put_record A key v n k of
        (None, k') \<Rightarrow> \<not> store_takes max_value max_records (stored k) key v \<and>
          stored k' = stored k \<and> used k' = used k
      | (Some qid, k') \<Rightarrow> store_takes max_value max_records (stored k) key v \<and> qid \<notin> used k \<and>
          stored k' = insert key (stored k) \<and> used k' = insert qid (used k)"
  unfolding memory_store_def by (drule conjunct1) (elim allE)

lemma memory_store_clock:
  "memory_store A max_value max_records stored used \<Longrightarrow> kd_now A k = (now, k') \<Longrightarrow>
     stored k' = stored k \<and> used k' = used k"
  unfolding memory_store_def by (metis snd_conv)

lemma expired_cases:
  assumes "expired A bo k = (exp, k')" "memory_store A max_value max_records stored used"
  shows "stored k' = stored k" "used k' = used k"
    and "\<not> exp \<Longrightarrow> k' = snd (kd_now A k) \<and>
      fst (kd_now A k) \<le> (case started bo of None \<Rightarrow> 0 | Some t \<Rightarrow> t + timeout bo)"
  using assms(1) memory_store_clock [OF assms(2)]
  by (auto simp: expired_def is_expired_def elapsed_def split: if_splits prod.splits option.splits)

lemma restart_store:
  "restart A success bo k = (bo', k') \<Longrightarrow> memory_store A max_value max_records stored used \<Longrightarrow>
     stored k' = stored k \<and> used k' = used k"
  by (auto simp: restart_def split: prod.splits dest: memory_store_clock)

text \<open>What a turn of the loop does with the query it takes: it is put, or goes to the back of the queue.\<close>

definition step_puts where
  "step_puts A stored req rest b b1 \<longleftrightarrow>
     queued_put_record_queries b1 = rest \<and>
     stored (kad_dht b1) = insert (pq_key req) (stored (kad_dht b))"

definition step_requeues where
  "step_requeues A stored takes req rest b b1 \<longleftrightarrow>
     (\<exists>req'. queued_put_record_queries b1 = rest @ [req'] \<and> record_of req' = record_of req) \<and>
     stored (kad_dht b1) = stored (kad_dht b) \<and>
     (takes \<longrightarrow> queued_put_record_queries b1 = rest @ [req] \<and>
        kad_dht b1 = snd (kd_now A (kad_dht b)) \<and> fst (kd_now A (kad_dht b)) \<le> deadline req)"

lemma drain_put_step_outcome:
  assumes store: "memory_store A max_value max_records stored used"
    and "\<not> begin_bootstrap b" "ids_used used b"
    and queue: "queued_put_record_queries b = req # rest"
  defines "b1 \<equiv> drain_put_step A req (b\<lparr>queued_put_record_queries := rest\<rparr>)"
    and "takes \<equiv> store_takes max_value max_records (stored (kad_dht b)) (pq_key req) (pq_value req)"
  shows "\<not> begin_bootstrap b1 \<and> ids_used used b1 \<and> unfinished_puts b1 = unfinished_puts b"
    and "takes \<and> step_puts A stored req rest b b1 \<or> step_requeues A stored takes req rest b b1"
proof -
  obtain exp k where exp: "expired A (pq_backoff req) (kad_dht b) = (exp, k)" by force
  note k = expired_cases(1,2) [OF exp store] and late = expired_cases(3) [OF exp store]
  have "(\<not> begin_bootstrap b1 \<and> ids_used used b1 \<and> unfinished_puts b1 = unfinished_puts b) \<and>
    (takes \<and> step_puts A stored req rest b b1 \<or> step_requeues A stored takes req rest b b1)"
  proof (cases exp)
    case False
    then have "b1 = b\<lparr>queued_put_record_queries := rest @ [req], kad_dht := k\<rparr>"
      using exp by (simp add: b1_def drain_put_step_def)
    then show ?thesis
      using late [OF False] assms(2,3) k queue
      by (simp add: ids_used_def unfinished_puts_def step_requeues_def deadline_def)
  next
    case True
    obtain answer k' where put:
      "kd_put_record A (pq_key req) (pq_value req) (replication_factor b) k = (answer, k')" by force
    note answered = memory_store_put [OF store, where key = "pq_key req" and v = "pq_value req" and n = "replication_factor b" and k = k]
    show ?thesis
    proof (cases answer)
      case (Some qid)
      have b1: "b1 = b\<lparr>queued_put_record_queries := rest, kad_dht := k',
          in_progress_put_record_queries := (in_progress_put_record_queries b)(qid \<mapsto> req)\<rparr>"
        using True exp put Some assms(2) by (simp add: b1_def drain_put_step_def put_record_def)
      have fresh: "qid \<notin> used k" "used k' = insert qid (used k)" and puts: "takes"
          "stored k' = insert (pq_key req) (stored (kad_dht b))"
        using answered put Some k by (auto simp: takes_def)
      moreover have "qid \<notin> dom (in_progress_put_record_queries b)" "finite (dom (in_progress_put_record_queries b))"
        using assms(3) fresh(1) k by (auto simp: ids_used_def)
      ultimately show ?thesis
        using b1 assms(2,3) k queue image_mset_fresh [of "in_progress_put_record_queries b" qid record_of req]
        by (auto simp: ids_used_def unfinished_puts_def step_puts_def)
    next
      case None
      obtain bo k2 where again: "restart A False (pq_backoff req) k' = (bo, k2)" by force
      have b1: "b1 = b\<lparr>queued_put_record_queries := rest @ [req\<lparr>pq_backoff := bo\<rparr>], kad_dht := k2\<rparr>"
        using True exp put None again assms(2) by (simp add: b1_def drain_put_step_def put_record_def)
      have "\<not> takes" "stored k2 = stored (kad_dht b)" "used k2 = used (kad_dht b)"
        using answered put None k restart_store [OF again store]
        by (auto simp: takes_def)
      then show ?thesis
        using b1 assms(2,3) queue
        by (simp add: ids_used_def unfinished_puts_def step_requeues_def record_of_def)
    qed
  qed
  then show "\<not> begin_bootstrap b1 \<and> ids_used used b1 \<and> unfinished_puts b1 = unfinished_puts b"
    and "takes \<and> step_puts A stored req rest b b1 \<or> step_requeues A stored takes req rest b b1" by blast+
qed

text \<open>How often the clock must be read until it passes an instant.\<close>

definition readings where
  "readings A latest k = (LEAST n. latest < fst (kd_now A (((snd \<circ> kd_now A) ^^ n) k)))"

lemma readings_decrease:
  assumes "clock_passes A latest" "fst (kd_now A k) \<le> latest"
  shows "readings A latest (snd (kd_now A k)) < readings A latest k"
proof -
  let ?P = "\<lambda>k n. latest < fst (kd_now A (((snd \<circ> kd_now A) ^^ n) k))"
  have "\<exists>n. ?P k n" using assms(1) unfolding clock_passes_def by blast
  then have now: "?P k (readings A latest k)" unfolding readings_def by (rule LeastI_ex)
  with assms(2) obtain n where n: "readings A latest k = Suc n" by (cases "readings A latest k") auto
  with now have "?P (snd (kd_now A k)) n" by (simp add: funpow_swap1)
  then have "readings A latest (snd (kd_now A k)) \<le> n" unfolding readings_def by (rule Least_le)
  with n show ?thesis by simp
qed

definition drain_measure where
  "drain_measure A latest b = (length (queued_put_record_queries b), readings A latest (kad_dht b))"

lemma drain_put_settles:
  assumes store: "memory_store A max_value max_records stored used" and clock: "clock_passes A latest"
  shows "\<not> begin_bootstrap b \<Longrightarrow> ids_used used b \<Longrightarrow>
    \<forall>q \<in> set (queued_put_record_queries b). length (pq_value q) < max_value \<and> deadline q \<le> latest \<Longrightarrow>
    finite (stored (kad_dht b)) \<Longrightarrow>
    card (stored (kad_dht b) \<union> pq_key ` set (queued_put_record_queries b)) \<le> max_records \<Longrightarrow>
    drain_put A b \<noteq> None"
proof (induction b rule: wf_induct_rule [OF wf_inv_image [OF wf_lex_prod [OF wf_less_than wf_less_than],
    of "drain_measure A latest"]])
  case (1 b)
  show ?case
  proof (cases "queued_put_record_queries b")
    case Nil
    then show ?thesis by (subst drain_put.simps) simp
  next
    case (Cons req rest)
    let ?b1 = "drain_put_step A req (b\<lparr>queued_put_record_queries := rest\<rparr>)" and ?stored = "stored (kad_dht b)"
    note out = drain_put_step_outcome [OF store 1(2,3) Cons]
    have keys: "card (insert (pq_key req) (?stored \<union> pq_key ` set rest)) \<le> max_records"
      using 1(6) Cons by simp
    have "card (insert (pq_key req) ?stored) \<le> card (insert (pq_key req) (?stored \<union> pq_key ` set rest))"
      using 1(5) by (intro card_mono) auto
    with keys have "card (insert (pq_key req) ?stored) \<le> max_records" by (rule le_trans [rotated])
    then have takes: "store_takes max_value max_records ?stored (pq_key req) (pq_value req)"
      using 1(4,5) Cons by (auto simp: store_takes_def card_insert_if split: if_splits)
    consider (puts) "step_puts A stored req rest b ?b1"
      | (waits) "queued_put_record_queries ?b1 = rest @ [req]" "stored (kad_dht ?b1) = ?stored"
        "kad_dht ?b1 = snd (kd_now A (kad_dht b))" "fst (kd_now A (kad_dht b)) \<le> deadline req"
      using out(2) takes unfolding step_requeues_def by blast
    then have "(?b1, b) \<in> inv_image (less_than <*lex*> less_than) (drain_measure A latest) \<and>
        (\<forall>q \<in> set (queued_put_record_queries ?b1). length (pq_value q) < max_value \<and> deadline q \<le> latest) \<and>
        finite (stored (kad_dht ?b1)) \<and>
        card (stored (kad_dht ?b1) \<union> pq_key ` set (queued_put_record_queries ?b1)) \<le> max_records"
    proof cases
      case puts
      then show ?thesis
        using 1(4,5) Cons keys by (simp add: step_puts_def drain_measure_def)
    next
      case waits
      moreover have "fst (kd_now A (kad_dht b)) \<le> latest" using waits(4) 1(4) Cons by auto
      from readings_decrease [OF clock this] waits(1,3) have
        "(?b1, b) \<in> inv_image (less_than <*lex*> less_than) (drain_measure A latest)"
        using Cons by (simp add: drain_measure_def)
      moreover have "pq_key ` set (rest @ [req]) = insert (pq_key req) (pq_key ` set rest)" by simp
      ultimately show ?thesis using 1(4,5) Cons keys by auto
    qed
    with 1(1) [of ?b1] out(1) Cons show ?thesis
      by (subst (1) drain_put.simps) simp
  qed
qed

lemma drain_put_result:
  assumes "drain_put A b = Some b'" "memory_store A max_value max_records stored used"
    and "\<not> begin_bootstrap b" "ids_used used b"
    and "finite (stored (kad_dht b))" "card (stored (kad_dht b)) \<le> max_records"
  shows "queued_put_record_queries b' = [] \<and> unfinished_puts b' = unfinished_puts b \<and>
    stored (kad_dht b') = stored (kad_dht b) \<union> pq_key ` set (queued_put_record_queries b) \<and>
    card (stored (kad_dht b')) \<le> max_records \<and>
    (\<forall>q \<in> set (queued_put_record_queries b). length (pq_value q) < max_value)"
  using assms(1,3-6)
proof (induction rule: drain_put_induct)
  case (empty b)
  then show ?case by simp
next
  case (step b req rest b')
  let ?b1 = "drain_put_step A req (b\<lparr>queued_put_record_queries := rest\<rparr>)"
  note out = drain_put_step_outcome [OF assms(2) step(3,4,1)]
  from out(2) show ?case
  proof (elim disjE conjE)
    assume takes: "store_takes max_value max_records (stored (kad_dht b)) (pq_key req) (pq_value req)"
      and puts: "step_puts A stored req rest b ?b1"
    then have "finite (stored (kad_dht ?b1))" "card (stored (kad_dht ?b1)) \<le> max_records"
      using step(5,6) by (auto simp: step_puts_def store_takes_def card_insert_if)
    from step(2) [OF _ _ this] out(1) takes puts step(1) show ?thesis
      by (auto simp: step_puts_def store_takes_def)
  next
    assume again: "step_requeues A stored
      (store_takes max_value max_records (stored (kad_dht b)) (pq_key req) (pq_value req)) req rest b ?b1"
    then have "stored (kad_dht ?b1) = stored (kad_dht b)" by (simp add: step_requeues_def)
    with step(2) step(5,6) out(1) again step(1) show ?thesis
      by (auto simp: step_requeues_def record_of_def)
  qed
qed

section \<open>The queue of puts is made\<close>

text \<open>
  C14: Outside a bootstrap, the retry loop of a poll ends exactly when the store can take all that is
  queued: every value is within the limit and there is room for the keys, once the clock has
  passed the timeouts, for which the loop waits without returning. When it ends, every
  queued put is handed to Kademlia under a query id of its own, none lost and none made twice, and
  its key is in the store.
\<close>

theorem queued_puts_are_made:
  assumes "memory_store A max_value max_records stored used" "clock_passes A latest"
    and "\<not> begin_bootstrap b" "ids_used used b"
    and "finite (stored (kad_dht b))" "card (stored (kad_dht b)) \<le> max_records"
    and "\<forall>q \<in> set (queued_put_record_queries b). deadline q \<le> latest"
  shows "(drain_put A b \<noteq> None \<longleftrightarrow>
      (\<forall>q \<in> set (queued_put_record_queries b). length (pq_value q) < max_value) \<and>
      card (stored (kad_dht b) \<union> pq_key ` set (queued_put_record_queries b)) \<le> max_records) \<and>
    (\<forall>b'. drain_put A b = Some b' \<longrightarrow> queued_put_record_queries b' = [] \<and>
      image_mset (\<lambda>qid. record_of (the (in_progress_put_record_queries b' qid)))
        (mset_set (dom (in_progress_put_record_queries b'))) = unfinished_puts b \<and>
      stored (kad_dht b') = stored (kad_dht b) \<union> pq_key ` set (queued_put_record_queries b))"
proof -
  have result: "queued_put_record_queries b' = [] \<and> unfinished_puts b' = unfinished_puts b \<and>
      stored (kad_dht b') = stored (kad_dht b) \<union> pq_key ` set (queued_put_record_queries b) \<and>
      card (stored (kad_dht b')) \<le> max_records \<and>
      (\<forall>q \<in> set (queued_put_record_queries b). length (pq_value q) < max_value)"
    if "drain_put A b = Some b'" for b'
    by (rule drain_put_result [OF that assms(1,3-6)])
  have "drain_put A b \<noteq> None"
    if "\<forall>q \<in> set (queued_put_record_queries b). length (pq_value q) < max_value"
      "card (stored (kad_dht b) \<union> pq_key ` set (queued_put_record_queries b)) \<le> max_records"
    using drain_put_settles [OF assms(1-4) _ assms(5)] that assms(7) by blast
  moreover have "(\<forall>q \<in> set (queued_put_record_queries b). length (pq_value q) < max_value) \<and>
      card (stored (kad_dht b) \<union> pq_key ` set (queued_put_record_queries b)) \<le> max_records"
    if "drain_put A b \<noteq> None"
    using that result by fastforce
  ultimately show ?thesis using result by (auto simp: unfinished_puts_def)
qed

text \<open>
  A store with room for two keys and values of two bytes; its clock goes on with every other
  reading.
\<close>

definition sample_store ::
    "(nat \<times> bytes set \<times> nat, nat, string, string, unit, unit, nat) kad_api" where
  "sample_store =
     \<lparr>kd_bootstrap = Pair True, kd_add_address = (\<lambda>peer addr k. k),
      kd_put_record = (\<lambda>key v n (ids, keys, time).
        if store_takes 3 2 keys key v then (Some ids, Suc ids, insert key keys, time) else (None, ids, keys, time)),
      kd_get_record = (\<lambda>key. Pair 0), kd_get_closest_peers = (\<lambda>peer. Pair 0), kd_poll = Pair Pending,
      kd_now = (\<lambda>(ids, keys, time). (time div 2, ids, keys, Suc time)),
      kd_random_peer = Pair ''r'', kd_send = (\<lambda>chan k. k), kd_walk = (\<lambda>m. []),
      kd_callback = (\<lambda>cb. Pair ()), kd_on_swarm_event = (\<lambda>ev k. k)\<rparr>"

lemma sample_store_memory:
  "memory_store sample_store 3 2 (\<lambda>k. fst (snd k)) (\<lambda>k. {..< fst k})"
  by (auto simp: memory_store_def sample_store_def)

lemma sample_store_readings:
  "(snd \<circ> kd_now sample_store) ^^ n = (\<lambda>(ids, keys, time). (ids, keys, time + n))"
  by (induction n) (auto simp: sample_store_def fun_eq_iff)

lemma sample_store_clock: "clock_passes sample_store latest"
  unfolding clock_passes_def sample_store_readings
  by (auto simp: sample_store_def intro!: exI [of _ "2 * Suc latest"])

definition sample_put :: "instant option \<Rightarrow> bytes \<Rightarrow> kad_put_query" where
  "sample_put t v = \<lparr>pq_backoff = backoff_default\<lparr>started := t\<rparr>, pq_key = v, pq_value = v\<rparr>"

lemma queued_puts_are_made_witness:
  "let run = (\<lambda>vs. drain_put sample_store
      (returned (dht_new (0, {}, 0) 1)\<lparr>queued_put_record_queries := map (sample_put (Some 0)) vs\<rparr>))
   in (\<exists>b'. run [[1], [2, 2]] = Some b' \<and> queued_put_record_queries b' = [] \<and>
         fst (snd (kad_dht b')) = {[1], [2, 2]}) \<and>
      run [[1], [2, 2, 2]] = None \<and> run [[1], [2], [3]] = None"
proof -
  let ?b = "\<lambda>vs. (returned (dht_new (0 :: nat, {} :: bytes set, 0 :: nat) 1)
    :: (nat \<times> bytes set \<times> nat, nat, string, string, nat) dht_bhv)
      \<lparr>queued_put_record_queries := map (sample_put (Some 0)) vs\<rparr>"
  have start: "\<not> begin_bootstrap (?b vs)" "ids_used (\<lambda>k. {..< fst k}) (?b vs)" "kad_dht (?b vs) = (0, {}, 0)"
    for vs by (simp_all add: sample_dht_eval ids_used_def)
  have "\<forall>q \<in> set (queued_put_record_queries (?b vs)). deadline q \<le> deadline (sample_put (Some 0) [])" for vs
    by (auto simp: deadline_def sample_put_def)
  from queued_puts_are_made [OF sample_store_memory sample_store_clock start(1,2) _ _ this] start(3)
  have ends: "(drain_put sample_store (?b vs) \<noteq> None \<longleftrightarrow> (\<forall>v \<in> set vs. length v < 3) \<and> card (set vs) \<le> 2) \<and>
      (\<forall>b'. drain_put sample_store (?b vs) = Some b' \<longrightarrow> queued_put_record_queries b' = [] \<and>
        fst (snd (kad_dht b')) = set vs)" for vs
    by (simp add: sample_put_def image_image)
  have "card {[1], [2], [3 :: u8]} = 3" by simp
  with ends [of "[[1], [2, 2]]"] ends [of "[[1], [2, 2, 2]]"] ends [of "[[1], [2], [3]]"]
  show ?thesis unfolding Let_def by auto
qed

section \<open>Gets\<close>

definition get_budget :: "('k, 'q, 'i, 'a, 'c) dht_bhv \<Rightarrow> nat" where
  "get_budget b = (\<Sum>qid \<in> dom (in_progress_get_record_queries b).
     Suc (unat (gq_retry_count (the (in_progress_get_record_queries b qid)))))"

lemma sum_map_insert:
  "finite (dom m) \<Longrightarrow> qid \<notin> dom m \<Longrightarrow>
     (\<Sum>i \<in> dom (m(qid \<mapsto> q)). f (the ((m(qid \<mapsto> q)) i))) = f q + (\<Sum>i \<in> dom m. (f (the (m i)) :: nat))"
  by (simp, rule sum.cong) auto

lemma sum_map_remove:
  "finite (dom m) \<Longrightarrow> m qid = Some q \<Longrightarrow>
     (\<Sum>i \<in> dom m. f (the (m i))) = f q + (\<Sum>i \<in> dom (m(qid := None)). (f (the ((m(qid := None)) i)) :: nat))"
proof -
  assume "finite (dom m)" "m qid = Some q"
  then have "(\<Sum>i \<in> dom m. f (the (m i))) = f q + (\<Sum>i \<in> dom m - {qid}. f (the (m i)))"
    using sum.remove [of "dom m" qid "\<lambda>i. f (the (m i))"] by (simp add: domI)
  moreover have "(\<Sum>i \<in> dom m - {qid}. f (the (m i))) = (\<Sum>i \<in> dom m - {qid}. f (the ((m(qid := None)) i)))"
    by (rule sum.cong [OF refl]) simp
  moreover have "dom (m(qid := None)) = dom m - {qid}" by simp
  ultimately show ?thesis by (simp only:)
qed

lemma unat_pred: "n \<noteq> 0 \<Longrightarrow> Suc (unat (n - 1)) = unat (n :: u8)"
  using unat_minus_one [of n] by (simp add: unat_gt_0 Suc_pred')

lemma handle_get_query_last:
  assumes "in_progress_get_record_queries b qid = Some q"
  shows "handle_get_query A r qid True b =
    get_record A (gq_key q) (gq_backoff q) (gq_retry_count q)
      (b\<lparr>in_progress_get_record_queries := (in_progress_get_record_queries b)(qid := None)\<rparr>)"
  using assms
  by (simp add: handle_get_query_def count_record_def split: get_record_result.splits)

text \<open>
  The last answer to a get is handled the same whatever was found: the records counted so far
  are dropped with the query, nobody is told the value, and the key is asked for again as long
  as there are retries left, after a success as after a failure. Every round takes one from the
  budget, so a get with retry count \<open>n\<close> makes exactly \<open>n\<close> queries.
\<close>

theorem get_results_discarded:
  assumes "in_progress_get_record_queries b qid = Some q"
    and "finite (dom (in_progress_get_record_queries b))"
    and "fst (kd_get_record A (gq_key q) (kad_dht b)) \<notin> dom (in_progress_get_record_queries b)"
  shows "handle_get_query A r qid True b = handle_get_query A r' qid True b \<and>
    handle_get_query A r qid True b =
      get_record A (gq_key q) (gq_backoff q) (gq_retry_count q)
        (b\<lparr>in_progress_get_record_queries := (in_progress_get_record_queries b)(qid := None)\<rparr>) \<and>
    Suc (get_budget (handle_get_query A r qid True b)) = get_budget b"
proof -
  let ?m = "(in_progress_get_record_queries b)(qid := None)"
  obtain new k where get: "kd_get_record A (gq_key q) (kad_dht b) = (new, k)" by force
  have new: "new \<notin> dom ?m" "finite (dom ?m)"
    using assms(2,3) get by auto
  have budget: "get_budget b = Suc (unat (gq_retry_count q)) +
      (\<Sum>i \<in> dom ?m. Suc (unat (gq_retry_count (the (?m i)))))"
    unfolding get_budget_def
    using sum_map_remove [OF assms(2,1), of "\<lambda>q. Suc (unat (gq_retry_count q))"] by simp
  have "Suc (get_budget (handle_get_query A r qid True b)) = get_budget b"
  proof (cases "gq_retry_count q = 0")
    case True
    then show ?thesis
      using budget by (simp add: handle_get_query_last [OF assms(1)] get_record_def get_budget_def)
  next
    case False
    then show ?thesis
      using budget sum_map_insert [OF new(2,1), of "\<lambda>q. Suc (unat (gq_retry_count q))"
          "\<lparr>gq_backoff = gq_backoff q, gq_key = gq_key q, gq_retry_count = gq_retry_count q - 1,
            gq_records = Map.empty\<rparr>"]
      by (simp add: handle_get_query_last [OF assms(1)] get_record_def get get_budget_def unat_pred
          del: dom_fun_upd)
  qed
  then show ?thesis by (simp add: handle_get_query_last [OF assms(1)])
qed

lemma get_results_discarded_witness:
  "let b = get_record (sample_kad (\<lambda>_. True)) [1] backoff_default 2 sample_dht in
     handle_get_query (sample_kad (\<lambda>_. True)) (FoundRecord [7]) 0 True b
       = handle_get_query (sample_kad (\<lambda>_. True)) GetRecordFailed 0 True b \<and>
     Suc (get_budget (handle_get_query (sample_kad (\<lambda>_. True)) (FoundRecord [7]) 0 True b)) = get_budget b"
proof -
  let ?A = "sample_kad (\<lambda>_. True)"
  let ?b = "get_record ?A [1] backoff_default 2 sample_dht"
  let ?q = "\<lparr>gq_backoff = backoff_default, gq_key = [1], gq_retry_count = 1, gq_records = Map.empty\<rparr>"
  have b: "?b = sample_dht\<lparr>kad_dht := (1, 0), in_progress_get_record_queries := [0 \<mapsto> ?q]\<rparr>"
    by (simp add: get_record_def sample_kad_def sample_dht_eval)
  have "in_progress_get_record_queries ?b 0 = Some ?q"
    "finite (dom (in_progress_get_record_queries ?b))"
    "fst (kd_get_record ?A (gq_key ?q) (kad_dht ?b)) \<notin> dom (in_progress_get_record_queries ?b)"
    unfolding b by (simp_all add: sample_kad_def)
  from get_results_discarded [OF this, of "FoundRecord [7]" GetRecordFailed] show ?thesis
    unfolding Let_def by blast
qed

end
