(* ===== verification/Timer.thy ===== *)
theory Timer
  imports Prelude
begin

text \<open>
  \<open>src/behaviours/mdns_bhv/timer.rs\<close>, the interval timer of the mDNS and the rendezvous
  behaviours, and \<open>ProbeState\<close> of \<open>iface.rs\<close>, which both use to choose its period. tokio's
  \<open>Interval\<close> is the type \<open>'t\<close>; its operations and the clock are the fields of a \<open>tokio_api\<close>
  over a state of the world \<open>'w\<close>.
\<close>

section \<open>tokio's interface\<close>

text \<open>\<open>tk_poll_tick\<close> answers whether the interval ticks now.\<close>

record ('t, 'w) tokio_api =
  tk_now :: "'w \<Rightarrow> instant \<times> 'w"
  tk_interval_at :: "instant \<Rightarrow> duration \<Rightarrow> 't outcome"
  tk_skip_missed :: "'t \<Rightarrow> 't"
  tk_poll_tick :: "'t \<Rightarrow> 'w \<Rightarrow> bool \<times> 't \<times> 'w"

section \<open>\<open>Timer\<close>\<close>

definition timer_interval_at :: "('t, 'w) tokio_api \<Rightarrow> instant \<Rightarrow> duration \<Rightarrow> 't outcome" where
  "timer_interval_at K start d =
     and_then (tk_interval_at K start d) (\<lambda>inner. Ret (tk_skip_missed K inner))"

definition timer_at :: "('t, 'w) tokio_api \<Rightarrow> instant \<Rightarrow> 't outcome" where
  "timer_at K t =
     and_then (tk_interval_at K t dur_max) (\<lambda>inner. Ret (tk_skip_missed K inner))"

definition timer_interval :: "('t, 'w) tokio_api \<Rightarrow> duration \<Rightarrow> 'w \<Rightarrow> ('t \<times> 'w) outcome" where
  "timer_interval K d w =
     (let (now, w1) = tk_now K w
      in and_then (inst_add now d) (\<lambda>start.
         and_then (tk_interval_at K start d) (\<lambda>inner. Ret (tk_skip_missed K inner, w1))))"

definition timer_poll_next :: "('t, 'w) tokio_api \<Rightarrow> 't \<Rightarrow> 'w \<Rightarrow> bool \<times> 't \<times> 'w" where
  "timer_poll_next K t w = tk_poll_tick K t w"

section \<open>\<open>ProbeState\<close>\<close>

datatype probe_state = Probing duration | Finished duration

fun interval :: "probe_state \<Rightarrow> duration" where
  "interval (Probing query_interval) = query_interval"
| "interval (Finished query_interval) = query_interval"

section \<open>tokio's documented behaviour\<close>

text \<open>An interval needs a period: \<open>interval_at\<close> panics exactly on a period of zero.\<close>

definition period_checked :: "('t, 'w) tokio_api \<Rightarrow> bool" where
  "period_checked K \<longleftrightarrow> (\<forall>start d. tk_interval_at K start d = Panic \<longleftrightarrow> d = 0)"

text \<open>
  A new interval does not tick before its start, and less than \<open>d\<close> passes between making
  one and polling it.
\<close>

definition waits_for :: "('t, 'w) tokio_api \<Rightarrow> duration \<Rightarrow> bool" where
  "waits_for K d \<longleftrightarrow>
     (\<forall>w t w1. timer_interval K d w = Ret (t, w1) \<longrightarrow> \<not> fst (timer_poll_next K t w1))"

lemma timer_interval_at_Panic:
  "period_checked K \<Longrightarrow> timer_interval_at K start d = Panic \<longleftrightarrow> d = 0"
  by (auto simp: timer_interval_at_def period_checked_def and_then_eq_Panic)

lemma timer_interval_returns:
  "period_checked K \<Longrightarrow> d \<noteq> 0 \<Longrightarrow> fst (tk_now K w) + d \<le> inst_max \<Longrightarrow>
     \<exists>t w1. timer_interval K d w = Ret (t, w1)"
  by (cases "tk_interval_at K (fst (tk_now K w) + d) d")
    (auto simp: timer_interval_def inst_add_def period_checked_def split_beta Let_def)

section \<open>An example\<close>

text \<open>An interval is its next deadline and its period; a missed tick is skipped.\<close>

definition sample_tokio :: "(instant \<times> duration, instant) tokio_api" where
  "sample_tokio =
     \<lparr>tk_now = (\<lambda>now. (now, now + 1)),
      tk_interval_at = (\<lambda>start d. if d = 0 then Panic else Ret (start, d)),
      tk_skip_missed = (\<lambda>t. t),
      tk_poll_tick = (\<lambda>(deadline, d) now.
        if deadline \<le> now then (True, (deadline + d * ((now - deadline) div d + 1), d), now)
        else (False, (deadline, d), now))\<rparr>"

lemma sample_tokio_period [simp]: "period_checked sample_tokio"
  by (simp add: period_checked_def sample_tokio_def)

lemma sample_tokio_waits: "1 < d \<Longrightarrow> waits_for sample_tokio d"
  by (auto simp: waits_for_def timer_interval_def timer_poll_next_def sample_tokio_def Let_def
      inst_add_def split: if_splits)

end
