(* ===== verification/Rendezvous.thy ===== *)
theory Rendezvous
  imports PollLoop Timer AddrLib
begin

text \<open>
  \<open>src/behaviours/rendezvous_bhv.rs\<close>: the rendezvous behaviour, which wraps libp2p's
  rendezvous client with the registrations to renew and the namespaces to discover. The
  client's operations are the fields of a \<open>rdvz_api\<close>; its state \<open>'k\<close> includes the clock.
\<close>

section \<open>The client's interface\<close>

datatype ('i, 'a, 'n, 'c) rdvz_client_event =
    ClientDiscovered "('i \<times> 'a list) list" 'c
  | ClientRegistered 'n
  | OtherRdvzEvent

text \<open>\<open>FromSwarm\<close>, by what the behaviour reads of it; the payload is passed on.\<close>

datatype ('i, 'a, 'x) from_swarm =
    DialedConnection 'i 'a 'x
  | AcceptedConnection 'i 'x
  | NewListener 'x
  | OtherFromSwarm 'x

text \<open>
  \<open>rz_order\<close> is the order in which a \<open>HashSet\<close> is iterated, \<open>rz_namespace\<close> is
  \<open>Namespace::new\<close>.
\<close>

record ('k, 't, 'i, 'a, 'n, 'c, 'x, 'r, 'e) rdvz_api =
  rz_tokio :: "('t, 'k) tokio_api"
  rz_addr :: "('a, 'i) addr_lib"
  rz_namespace :: "string \<Rightarrow> 'e + 'n"
  rz_order :: "('a \<times> 'n) set \<Rightarrow> ('a \<times> 'n) list"
  rz_register :: "'n \<Rightarrow> 'i \<Rightarrow> u64 option \<Rightarrow> 'k \<Rightarrow> bool \<times> 'k"
  rz_unregister :: "'n \<Rightarrow> 'i \<Rightarrow> 'k \<Rightarrow> 'k"
  rz_discover :: "'n option \<Rightarrow> 'c option \<Rightarrow> u64 option \<Rightarrow> 'i \<Rightarrow> 'k \<Rightarrow> 'k"
  rz_poll :: "'k \<Rightarrow> (('i, 'a, 'n, 'c) rdvz_client_event, 'x) to_swarm poll \<times> 'k"
  rz_callback :: "('i, 'a, 'x) callback \<Rightarrow> 'k \<Rightarrow> 'r \<times> 'k"
  rz_on_swarm_event :: "('i, 'a, 'x) from_swarm \<Rightarrow> 'k \<Rightarrow> 'k"

section \<open>State\<close>

datatype ('i, 'a, 'n) rdvz_event =
    Discovered "('i \<times> 'a) set"
  | Registered 'n

record ('k, 't, 'i, 'a, 'n, 'c) rdvz_bhv =
  current_id :: 'i
  rdvz :: 'k
  cookie :: "'c option"
  registrations :: "('a \<times> 'n) set"
  discovery :: "('a \<times> 'n) set"
  connected_rdvzs :: "('i \<times> 'a) list"
  rdvz_queue :: "('i, 'a, 'n) rdvz_event list"
  rdvz_ttl :: "u64 option"
  rdvz_probe_state :: probe_state
  rdvz_timeout :: 't

definition set_rdvz :: "'k \<Rightarrow> ('k, 't, 'i, 'a, 'n, 'c) rdvz_bhv \<Rightarrow> ('k, 't, 'i, 'a, 'n, 'c) rdvz_bhv" where
  "set_rdvz k b = b\<lparr>rdvz := k\<rparr>"

definition set_rdvz_queue ::
    "('i, 'a, 'n) rdvz_event list \<Rightarrow> ('k, 't, 'i, 'a, 'n, 'c) rdvz_bhv
      \<Rightarrow> ('k, 't, 'i, 'a, 'n, 'c) rdvz_bhv" where
  "set_rdvz_queue es b = b\<lparr>rdvz_queue := es\<rparr>"

text \<open>\<open>Duration::from_secs(ttl.unwrap_or(30))\<close>\<close>

definition ttl_duration :: "u64 option \<Rightarrow> duration" where
  "ttl_duration t = dur_from_secs (case t of Some s \<Rightarrow> s | None \<Rightarrow> 30)"

definition rdvz_new ::
    "('k, 't, 'i, 'a, 'n, 'c, 'x, 'r, 'e) rdvz_api \<Rightarrow> 'k \<Rightarrow> 'i \<Rightarrow> u64 option
      \<Rightarrow> ('k, 't, 'i, 'a, 'n, 'c) rdvz_bhv outcome" where
  "rdvz_new A behaviour current ttl =
     (let (now, k) = tk_now (rz_tokio A) behaviour
      in and_then (timer_interval_at (rz_tokio A) now (ttl_duration ttl)) (\<lambda>t.
           Ret \<lparr>current_id = current, rdvz = k, cookie = None, registrations = {}, discovery = {},
                connected_rdvzs = [], rdvz_queue = [], rdvz_ttl = ttl,
                rdvz_probe_state = Probing (ttl_duration ttl), rdvz_timeout = t\<rparr>))"

section \<open>Operations\<close>

definition rdvz_register ::
    "('k, 't, 'i, 'a, 'n, 'c, 'x, 'r, 'e) rdvz_api \<Rightarrow> 'a \<Rightarrow> string
      \<Rightarrow> ('k, 't, 'i, 'a, 'n, 'c) rdvz_bhv \<Rightarrow> ('e + unit) \<times> ('k, 't, 'i, 'a, 'n, 'c) rdvz_bhv" where
  "rdvz_register A rdvz_node namespace b =
     (case rz_namespace A namespace of
        Inl e \<Rightarrow> (Inl e, b)
      | Inr ns \<Rightarrow> (Inr (), b\<lparr>registrations := insert (rdvz_node, ns) (registrations b)\<rparr>))"

text \<open>The peer of an address that ends in \<open>/p2p\<close>: \<open>addr.clone().pop()\<close>.\<close>

definition end_peer :: "('k, 't, 'i, 'a, 'n, 'c, 'x, 'r, 'e) rdvz_api \<Rightarrow> 'a \<Rightarrow> 'i option" where
  "end_peer A addr = (case fst (ma_pop (rz_addr A) addr) of Some (P2p peer) \<Rightarrow> Some peer | _ \<Rightarrow> None)"

fun unregister_all ::
    "('k, 't, 'i, 'a, 'n, 'c, 'x, 'r, 'e) rdvz_api \<Rightarrow> 'n \<Rightarrow> ('a \<times> 'n) list \<Rightarrow> 'k \<Rightarrow> 'k" where
  "unregister_all A ns [] k = k"
| "unregister_all A ns ((point, namespace) # rest) k =
     unregister_all A ns rest
       (case end_peer A point of
          Some node \<Rightarrow> if ns = namespace then rz_unregister A namespace node k else k
        | None \<Rightarrow> k)"

definition rdvz_unregister ::
    "('k, 't, 'i, 'a, 'n, 'c, 'x, 'r, 'e) rdvz_api \<Rightarrow> string
      \<Rightarrow> ('k, 't, 'i, 'a, 'n, 'c) rdvz_bhv \<Rightarrow> ('e + unit) \<times> ('k, 't, 'i, 'a, 'n, 'c) rdvz_bhv" where
  "rdvz_unregister A namespace b =
     (case rz_namespace A namespace of
        Inl e \<Rightarrow> (Inl e, b)
      | Inr ns \<Rightarrow>
          (Inr (), b\<lparr>rdvz := unregister_all A ns (rz_order A (registrations b)) (rdvz b)\<rparr>))"

definition rdvz_discover ::
    "('k, 't, 'i, 'a, 'n, 'c, 'x, 'r, 'e) rdvz_api \<Rightarrow> 'a \<Rightarrow> string
      \<Rightarrow> ('k, 't, 'i, 'a, 'n, 'c) rdvz_bhv \<Rightarrow> ('e + unit) \<times> ('k, 't, 'i, 'a, 'n, 'c) rdvz_bhv" where
  "rdvz_discover A rdvz_node namespace b =
     (case rz_namespace A namespace of
        Inl e \<Rightarrow> (Inl e, b)
      | Inr ns \<Rightarrow> (Inr (), b\<lparr>discovery := insert (rdvz_node, ns) (discovery b)\<rparr>))"

text \<open>The two nested loops of the \<open>Discovered\<close> arm.\<close>

fun discovered_set :: "'i \<Rightarrow> ('i \<times> 'a list) list \<Rightarrow> ('i \<times> 'a) set \<Rightarrow> ('i \<times> 'a) set" where
  "discovered_set me [] discovered = discovered"
| "discovered_set me ((peer, addresses) # rest) discovered =
     (if peer = me then discovered_set me rest discovered
      else discovered_set me rest (foldl (\<lambda>d address. insert (peer, address) d) discovered addresses))"

definition rdvz_handle_event ::
    "('i, 'a, 'n, 'c) rdvz_client_event \<Rightarrow> ('k, 't, 'i, 'a, 'n, 'c) rdvz_bhv
      \<Rightarrow> ('k, 't, 'i, 'a, 'n, 'c) rdvz_bhv" where
  "rdvz_handle_event event b =
     (case event of
        ClientDiscovered regs c \<Rightarrow>
          (let b1 = b\<lparr>cookie := Some c\<rparr>
           in b1\<lparr>rdvz_queue := rdvz_queue b1 @ [Discovered (discovered_set (current_id b1) regs {})]\<rparr>)
      | ClientRegistered ns \<Rightarrow> b\<lparr>rdvz_queue := rdvz_queue b @ [Registered ns]\<rparr>
      | OtherRdvzEvent \<Rightarrow> b)"

definition rdvz_reset_timer ::
    "('k, 't, 'i, 'a, 'n, 'c, 'x, 'r, 'e) rdvz_api \<Rightarrow> ('k, 't, 'i, 'a, 'n, 'c) rdvz_bhv
      \<Rightarrow> ('k, 't, 'i, 'a, 'n, 'c) rdvz_bhv outcome" where
  "rdvz_reset_timer A b =
     and_then (timer_interval (rz_tokio A) (interval (rdvz_probe_state b)) (rdvz b))
       (\<lambda>(t, k). Ret (b\<lparr>rdvz_timeout := t, rdvz := k\<rparr>))"

section \<open>Swarm events\<close>

text \<open>
  The loops over the registrations and the discoveries: the first two for a connection that was
  dialed to \<open>address\<close>, the third for a new listener and for a tick of the timer.
\<close>

fun register_at ::
    "('k, 't, 'i, 'a, 'n, 'c, 'x, 'r, 'e) rdvz_api \<Rightarrow> 'a \<Rightarrow> 'i \<Rightarrow> u64 option \<Rightarrow> ('a \<times> 'n) list
      \<Rightarrow> 'k \<Rightarrow> 'k" where
  "register_at A address peer ttl [] k = k"
| "register_at A address peer ttl ((rdvz_addr, namespace) # rest) k =
     register_at A address peer ttl rest
       (if address = rdvz_addr then snd (rz_register A namespace peer ttl k) else k)"

fun discover_at ::
    "('k, 't, 'i, 'a, 'n, 'c, 'x, 'r, 'e) rdvz_api \<Rightarrow> 'a \<Rightarrow> 'i \<Rightarrow> 'c option \<Rightarrow> ('a \<times> 'n) list
      \<Rightarrow> 'k \<Rightarrow> 'k" where
  "discover_at A address peer ck [] k = k"
| "discover_at A address peer ck ((rdvz_addr, namespace) # rest) k =
     discover_at A address peer ck rest
       (if address = rdvz_addr then rz_discover A (Some namespace) ck None peer k else k)"

fun register_all ::
    "('k, 't, 'i, 'a, 'n, 'c, 'x, 'r, 'e) rdvz_api \<Rightarrow> u64 option \<Rightarrow> ('a \<times> 'n) list \<Rightarrow> 'k \<Rightarrow> 'k" where
  "register_all A ttl [] k = k"
| "register_all A ttl ((rdvz_addr, namespace) # rest) k =
     register_all A ttl rest
       (case end_peer A rdvz_addr of
          Some peer \<Rightarrow> snd (rz_register A namespace peer ttl k)
        | None \<Rightarrow> k)"

definition rdvz_on_swarm_event ::
    "('k, 't, 'i, 'a, 'n, 'c, 'x, 'r, 'e) rdvz_api \<Rightarrow> ('i, 'a, 'x) from_swarm
      \<Rightarrow> ('k, 't, 'i, 'a, 'n, 'c) rdvz_bhv \<Rightarrow> ('k, 't, 'i, 'a, 'n, 'c) rdvz_bhv" where
  "rdvz_on_swarm_event A event b =
     (let b1 = (case event of
          DialedConnection peer address _ \<Rightarrow>
            (let k1 = register_at A address peer (rdvz_ttl b) (rz_order A (registrations b)) (rdvz b);
                 k2 = discover_at A address peer (cookie b) (rz_order A (discovery b)) k1
             in b\<lparr>rdvz := k2, connected_rdvzs := connected_rdvzs b @ [(peer, address)]\<rparr>)
        | NewListener _ \<Rightarrow>
            b\<lparr>rdvz := register_all A (rdvz_ttl b) (rz_order A (registrations b)) (rdvz b)\<rparr>
        | _ \<Rightarrow> b)
      in b1\<lparr>rdvz := rz_on_swarm_event A event (rdvz b1)\<rparr>)"

definition rdvz_callback ::
    "('k, 't, 'i, 'a, 'n, 'c, 'x, 'r, 'e) rdvz_api \<Rightarrow> ('i, 'a, 'x) callback
      \<Rightarrow> ('k, 't, 'i, 'a, 'n, 'c) rdvz_bhv \<Rightarrow> 'r \<times> ('k, 't, 'i, 'a, 'n, 'c) rdvz_bhv" where
  "rdvz_callback A cb b = delegate rdvz set_rdvz (rz_callback A cb) b"

section \<open>Polling\<close>

text \<open>One pass of the timer's loop after a tick, up to the timer's reset.\<close>

definition rdvz_tick ::
    "('k, 't, 'i, 'a, 'n, 'c, 'x, 'r, 'e) rdvz_api \<Rightarrow> duration \<Rightarrow> ('k, 't, 'i, 'a, 'n, 'c) rdvz_bhv
      \<Rightarrow> ('k, 't, 'i, 'a, 'n, 'c) rdvz_bhv" where
  "rdvz_tick A ttl b =
     (let b1 = b\<lparr>rdvz := register_all A (rdvz_ttl b) (rz_order A (registrations b)) (rdvz b)\<rparr>
      in case rdvz_probe_state b1 of
           Probing d \<Rightarrow> b1\<lparr>rdvz_probe_state := (if ttl \<le> d then Finished ttl else Probing d)\<rparr>
         | Finished d \<Rightarrow> b1)"

partial_function (option) rdvz_ticks ::
    "('k, 't, 'i, 'a, 'n, 'c, 'x, 'r, 'e) rdvz_api \<Rightarrow> duration \<Rightarrow> ('k, 't, 'i, 'a, 'n, 'c) rdvz_bhv
      \<Rightarrow> ('k, 't, 'i, 'a, 'n, 'c) rdvz_bhv outcome option" where
  "rdvz_ticks A ttl b =
     (let (ready, t, k) = timer_poll_next (rz_tokio A) (rdvz_timeout b) (rdvz b);
          b1 = b\<lparr>rdvz_timeout := t, rdvz := k\<rparr>
      in if ready
         then (case rdvz_reset_timer A (rdvz_tick A ttl b1) of
                 Panic \<Rightarrow> Some Panic
               | Ret b2 \<Rightarrow> rdvz_ticks A ttl b2)
         else Some (Ret b1))"

definition rdvz_poll ::
    "('k, 't, 'i, 'a, 'n, 'c, 'x, 'r, 'e) rdvz_api \<Rightarrow> ('k, 't, 'i, 'a, 'n, 'c) rdvz_bhv
      \<Rightarrow> ((('i, 'a, 'n) rdvz_event, 'x) to_swarm poll \<times> ('k, 't, 'i, 'a, 'n, 'c) rdvz_bhv) outcome option" where
  "rdvz_poll A b =
     Option.bind (rdvz_ticks A (ttl_duration (rdvz_ttl b)) b) (\<lambda>ticked.
       case ticked of
         Panic \<Rightarrow> Some Panic
       | Ret b1 \<Rightarrow>
           map_option Ret
             (poll_loop rdvz set_rdvz (rz_poll A) rdvz_handle_event (\<lambda>_. None)
                (pop_event_or_pending rdvz_queue set_rdvz_queue) b1))"

section \<open>The behaviour is an event wrapper\<close>

fun rdvz_new_events ::
    "('i, 'a, 'n, 'c) rdvz_client_event \<Rightarrow> ('k, 't, 'i, 'a, 'n, 'c) rdvz_bhv
      \<Rightarrow> ('i, 'a, 'n) rdvz_event list" where
  "rdvz_new_events (ClientDiscovered regs c) b = [Discovered (discovered_set (current_id b) regs {})]"
| "rdvz_new_events (ClientRegistered ns) b = [Registered ns]"
| "rdvz_new_events OtherRdvzEvent b = []"

interpretation rdvz_wrapper: event_wrapper rdvz set_rdvz rdvz_queue set_rdvz_queue
  rdvz_handle_event rdvz_new_events "\<lambda>_. None" "pop_event_or_pending rdvz_queue set_rdvz_queue"
  by unfold_locales
    (auto simp: set_rdvz_def set_rdvz_queue_def rdvz_handle_event_def
      split: rdvz_client_event.splits)

section \<open>An example of a client\<close>

text \<open>
  Its state is the clock and the number of requests made. Peers and namespaces are strings, and
  an address is a list of protocols.
\<close>

definition sample_clock :: "(instant \<times> duration, instant \<times> nat) tokio_api" where
  "sample_clock =
     \<lparr>tk_now = (\<lambda>(now, n). (now, now + 1, n)),
      tk_interval_at = tk_interval_at sample_tokio,
      tk_skip_missed = tk_skip_missed sample_tokio,
      tk_poll_tick = (\<lambda>t (now, n). case tk_poll_tick sample_tokio t now of (r, t1, now1) \<Rightarrow> (r, t1, now1, n))\<rparr>"

definition sample_rdvz ::
    "(instant \<times> nat, instant \<times> duration, string, string protocol list, string, unit, unit, unit, unit) rdvz_api" where
  "sample_rdvz =
     \<lparr>rz_tokio = sample_clock,
      rz_addr = list_lib (\<lambda>_. None) (\<lambda>_. []) (\<lambda>i. i) Some,
      rz_namespace = (\<lambda>s. if length s \<le> 255 then Inr s else Inl ()),
      rz_order = (\<lambda>regs. if regs = {} then [] else [([Tcp 1, P2p ''p''], ''ns'')]),
      rz_register = (\<lambda>ns peer ttl (now, n). (True, now, n + 1)),
      rz_unregister = (\<lambda>ns peer (now, n). (now, n + 1)),
      rz_discover = (\<lambda>ns ck limit peer (now, n). (now, n + 1)),
      rz_poll = (\<lambda>k. (Pending, k)),
      rz_callback = (\<lambda>cb k. ((), k)),
      rz_on_swarm_event = (\<lambda>ev k. k)\<rparr>"

lemma sample_rdvz_period: "period_checked (rz_tokio sample_rdvz)"
  using sample_tokio_period by (simp add: sample_rdvz_def sample_clock_def period_checked_def)

lemma sample_rdvz_waits: "1 < d \<Longrightarrow> waits_for (rz_tokio sample_rdvz) d"
  by (auto simp: waits_for_def timer_interval_def timer_poll_next_def sample_rdvz_def sample_clock_def
      sample_tokio_def Let_def inst_add_def split: if_splits)

definition sample_rdvz_state ::
    "(instant \<times> nat, instant \<times> duration, string, string protocol list, string, unit) rdvz_bhv" where
  "sample_rdvz_state =
     \<lparr>current_id = ''me'', rdvz = (0, 0), cookie = None,
      registrations = {([Tcp 1, P2p ''p''], ''ns'')}, discovery = {}, connected_rdvzs = [],
      rdvz_queue = [], rdvz_ttl = Some 60, rdvz_probe_state = Probing (dur_from_secs 60),
      rdvz_timeout = (0, dur_from_secs 60)\<rparr>"

section \<open>What is asked of the rendezvous points\<close>

text \<open>The requests as data, and what making one does to the client.\<close>

datatype ('n, 'i, 'c) rdvz_request =
    Register 'n 'i
  | Unregister 'n 'i
  | Discover 'n "'c option" 'i

fun perform ::
    "('k, 't, 'i, 'a, 'n, 'c, 'x, 'r, 'e) rdvz_api \<Rightarrow> u64 option \<Rightarrow> ('n, 'i, 'c) rdvz_request
      \<Rightarrow> 'k \<Rightarrow> 'k" where
  "perform A ttl (Register ns peer) k = snd (rz_register A ns peer ttl k)"
| "perform A ttl (Unregister ns peer) k = rz_unregister A ns peer k"
| "perform A ttl (Discover ns ck peer) k = rz_discover A (Some ns) ck None peer k"

definition renewals ::
    "('k, 't, 'i, 'a, 'n, 'c, 'x, 'r, 'e) rdvz_api \<Rightarrow> ('a \<times> 'n) list \<Rightarrow> ('n, 'i, 'c) rdvz_request list" where
  "renewals A regs = List.map_filter (\<lambda>(addr, ns). map_option (Register ns) (end_peer A addr)) regs"

definition withdrawals ::
    "('k, 't, 'i, 'a, 'n, 'c, 'x, 'r, 'e) rdvz_api \<Rightarrow> 'n \<Rightarrow> ('a \<times> 'n) list
      \<Rightarrow> ('n, 'i, 'c) rdvz_request list" where
  "withdrawals A name regs =
     List.map_filter (\<lambda>(addr, ns). if name = ns then map_option (Unregister ns) (end_peer A addr) else None) regs"

lemma map_filter_Cons_split:
  "List.map_filter f (x # xs) = (case f x of None \<Rightarrow> [] | Some y \<Rightarrow> [y]) @ List.map_filter f xs"
  by (simp add: List.map_filter_def split: option.splits)

lemma map_filter_Nil [simp]: "List.map_filter f [] = []"
  by (simp add: List.map_filter_def)

lemma set_map_filter: "y \<in> set (List.map_filter f xs) \<longleftrightarrow> (\<exists>x \<in> set xs. f x = Some y)"
  by (induction xs) (auto simp: map_filter_Cons_split split: option.splits)

lemma register_all_requests: "register_all A ttl regs k = fold (perform A ttl) (renewals A regs) k"
  by (induction regs arbitrary: k) (auto simp: renewals_def map_filter_Cons_split split: option.splits)

lemma unregister_all_requests:
  "unregister_all A name regs k = fold (perform A ttl) (withdrawals A name regs) k"
  by (induction regs arbitrary: k) (auto simp: withdrawals_def map_filter_Cons_split split: option.splits if_splits)

lemma register_at_requests:
  "register_at A address peer ttl regs k =
     fold (perform A ttl) (map (\<lambda>(_, ns). Register ns peer) (filter (\<lambda>(addr, _). address = addr) regs)) k"
  by (induction regs arbitrary: k) auto

lemma discover_at_requests:
  "discover_at A address peer ck regs k =
     fold (perform A ttl) (map (\<lambda>(_, ns). Discover ns ck peer) (filter (\<lambda>(addr, _). address = addr) regs)) k"
  by (induction regs arbitrary: k) auto

lemma rdvz_tick_fields [simp]:
  "rdvz (rdvz_tick A d b) = fold (perform A (rdvz_ttl b)) (renewals A (rz_order A (registrations b))) (rdvz b)"
  "registrations (rdvz_tick A d b) = registrations b"
  by (auto simp: rdvz_tick_def register_all_requests Let_def split: probe_state.splits)

text \<open>
  C34: Unregistering a namespace tells its rendezvous points, but the registration stays: at the
  next tick of the timer the namespace is registered again at every one of them.
\<close>

theorem unregistered_namespace_comes_back:
  assumes "rz_namespace A name = Inr ns"
    and "(addr, ns) \<in> set (rz_order A (registrations b))" "end_peer A addr = Some peer"
  defines "b1 \<equiv> snd (rdvz_unregister A name b)"
  shows "rdvz b1 = fold (perform A (rdvz_ttl b)) (withdrawals A ns (rz_order A (registrations b))) (rdvz b) \<and>
    Unregister ns peer \<in> set (withdrawals A ns (rz_order A (registrations b))) \<and>
    rdvz (rdvz_tick A d b1) = fold (perform A (rdvz_ttl b)) (renewals A (rz_order A (registrations b))) (rdvz b1) \<and>
    Register ns peer \<in> set (renewals A (rz_order A (registrations b)))"
proof -
  let ?regs = "rz_order A (registrations b)"
  have "Unregister ns peer \<in> set (withdrawals A ns ?regs)" "Register ns peer \<in> set (renewals A ?regs)"
    using assms(2,3) by (force simp: withdrawals_def renewals_def set_map_filter)+
  moreover have "b1 = b\<lparr>rdvz := fold (perform A (rdvz_ttl b)) (withdrawals A ns ?regs) (rdvz b)\<rparr>"
    using assms(1) by (simp add: b1_def rdvz_unregister_def unregister_all_requests [where ttl = "rdvz_ttl b"])
  ultimately show ?thesis by simp
qed

lemma unregistered_namespace_comes_back_witness:
  "Register ''ns'' ''p'' \<in> set (renewals sample_rdvz
      (rz_order sample_rdvz (registrations (snd (rdvz_unregister sample_rdvz ''ns'' sample_rdvz_state)))))"
proof -
  have "rz_namespace sample_rdvz ''ns'' = Inr ''ns''"
    "([Tcp 1, P2p ''p''], ''ns'') \<in> set (rz_order sample_rdvz (registrations sample_rdvz_state))"
    "end_peer sample_rdvz [Tcp 1, P2p ''p''] = Some ''p''"
    "registrations (snd (rdvz_unregister sample_rdvz ''ns'' sample_rdvz_state)) = registrations sample_rdvz_state"
    by (simp_all add: sample_rdvz_def sample_rdvz_state_def end_peer_def list_lib_def list_pop_def rdvz_unregister_def)
  with unregistered_namespace_comes_back [of sample_rdvz "''ns''" "''ns''" "[Tcp 1, P2p ''p'']" sample_rdvz_state "''p''"]
  show ?thesis by simp
qed

text \<open>
  C35: When a connection to a configured rendezvous point was dialed, every namespace to register
  there is registered and every namespace to discover there is asked for, in that order and
  nothing else. The cookie of the last answer goes with every one of these requests, whatever
  namespace and point it came from.
\<close>

theorem dialed_rendezvous_requests:
  "rdvz (rdvz_on_swarm_event A (DialedConnection peer address x) (rdvz_handle_event (ClientDiscovered regs ck) b))
     = rz_on_swarm_event A (DialedConnection peer address x)
         (fold (perform A (rdvz_ttl b))
            (map (\<lambda>(_, ns). Register ns peer) (filter (\<lambda>(addr, _). address = addr) (rz_order A (registrations b))) @
             map (\<lambda>(_, ns). Discover ns (Some ck) peer) (filter (\<lambda>(addr, _). address = addr) (rz_order A (discovery b))))
            (rdvz b))"
  by (simp add: rdvz_on_swarm_event_def rdvz_handle_event_def register_at_requests
      discover_at_requests [where ttl = "rdvz_ttl b"])

section \<open>What the node is told\<close>

lemma foldl_insert_pairs: "foldl (\<lambda>d address. insert (p, address) d) D as = D \<union> {p} \<times> set as"
  by (induction as arbitrary: D) auto

lemma discovered_set_eq:
  "discovered_set me regs D = D \<union> {(p, a). p \<noteq> me \<and> (\<exists>as. (p, as) \<in> set regs \<and> a \<in> set as)}"
  by (induction me regs D rule: discovered_set.induct) (auto simp: foldl_insert_pairs)

text \<open>
  An answer of a rendezvous point queues one event for the node, with exactly the addresses of
  the other registered peers; the node's own registration is never among them. The events reach
  the node in order, one per poll.
\<close>

theorem rendezvous_discovers_others:
  "rdvz_queue (rdvz_handle_event (ClientDiscovered regs ck) b) =
     rdvz_queue b @ [Discovered {(p, a). p \<noteq> current_id b \<and> (\<exists>as. (p, as) \<in> set regs \<and> a \<in> set as)}]"
  by (simp add: rdvz_handle_event_def discovered_set_eq)

section \<open>The timer\<close>

lemma rdvz_tick_probe:
  "interval (rdvz_probe_state b) = d \<Longrightarrow> rdvz_probe_state (rdvz_tick A d b) = Finished d"
  by (auto simp: rdvz_tick_def Let_def split: probe_state.splits)

text \<open>
  C33: With a probe interval of one ttl, which \<open>new\<close> sets and every tick keeps, a poll in which
  the timer ticks renews every registration exactly once, then rests for a ttl: the loop ends,
  and the probing is over.
\<close>

theorem rendezvous_renews_once:
  assumes "period_checked (rz_tokio A)" "waits_for (rz_tokio A) d"
    and "d = ttl_duration (rdvz_ttl b)" "interval (rdvz_probe_state b) = d" "d \<noteq> 0"
    and tick: "timer_poll_next (rz_tokio A) (rdvz_timeout b) (rdvz b) = (True, t, k)"
    and clock: "fst (tk_now (rz_tokio A)
        (fold (perform A (rdvz_ttl b)) (renewals A (rz_order A (registrations b))) k)) + d \<le> inst_max"
  shows "\<exists>b' t1 k1. rdvz_ticks A d b = Some (Ret b') \<and>
      timer_interval (rz_tokio A) d
        (fold (perform A (rdvz_ttl b)) (renewals A (rz_order A (registrations b))) k) = Ret (t1, k1) \<and>
      timer_poll_next (rz_tokio A) t1 k1 = (False, rdvz_timeout b', rdvz b') \<and>
      rdvz_probe_state b' = Finished d"
proof -
  let ?b1 = "b\<lparr>rdvz_timeout := t, rdvz := k\<rparr>"
  let ?k = "fold (perform A (rdvz_ttl b)) (renewals A (rz_order A (registrations b))) k"
  obtain t1 k1 where t1: "timer_interval (rz_tokio A) d ?k = Ret (t1, k1)"
    using timer_interval_returns [OF assms(1,5) clock] by blast
  obtain t2 k2 where t2: "timer_poll_next (rz_tokio A) t1 k1 = (False, t2, k2)"
    using assms(2) t1 unfolding waits_for_def by (metis prod.collapse)
  have probe: "rdvz_probe_state (rdvz_tick A d ?b1) = Finished d"
    by (rule rdvz_tick_probe) (simp add: assms(4))
  let ?b2 = "(rdvz_tick A d ?b1)\<lparr>rdvz_timeout := t1, rdvz := k1\<rparr>"
  have "rdvz_reset_timer A (rdvz_tick A d ?b1) = Ret ?b2"
    using t1 by (simp add: rdvz_reset_timer_def probe)
  then have "rdvz_ticks A d b = rdvz_ticks A d ?b2"
    using tick by (subst rdvz_ticks.simps) simp
  also have "\<dots> = Some (Ret (?b2\<lparr>rdvz_timeout := t2, rdvz := k2\<rparr>))"
    using t2 by (subst rdvz_ticks.simps) simp
  finally have run: "rdvz_ticks A d b = Some (Ret (?b2\<lparr>rdvz_timeout := t2, rdvz := k2\<rparr>))" .
  with run t1 t2 probe show ?thesis by simp
qed

lemma rendezvous_renews_once_witness:
  "\<exists>b'. rdvz_ticks sample_rdvz (dur_from_secs 60) (sample_rdvz_state) = Some (Ret b') \<and>
     rdvz_probe_state b' = Finished (dur_from_secs 60)"
proof -
  have d: "dur_from_secs 60 = 60000000000" by (simp add: dur_from_secs_def nanos_per_sec_def)
  have w: "waits_for (rz_tokio sample_rdvz) (dur_from_secs 60)"
    by (rule sample_rdvz_waits) (simp add: d)
  have tick: "timer_poll_next (rz_tokio sample_rdvz) (rdvz_timeout sample_rdvz_state) (rdvz sample_rdvz_state)
      = (True, (60000000000, 60000000000), (0, 0))"
    by (simp add: timer_poll_next_def sample_rdvz_def sample_clock_def sample_tokio_def sample_rdvz_state_def d)
  have clock: "fst (tk_now (rz_tokio sample_rdvz)
      (fold (perform sample_rdvz (rdvz_ttl sample_rdvz_state))
         (renewals sample_rdvz (rz_order sample_rdvz (registrations sample_rdvz_state))) (0, 0)))
      + dur_from_secs 60 \<le> inst_max"
    by (simp add: sample_rdvz_def sample_clock_def sample_rdvz_state_def d renewals_def map_filter_Cons_split
        end_peer_def list_lib_def list_pop_def inst_max_def nanos_per_sec_def)
  have s: "dur_from_secs 60 = ttl_duration (rdvz_ttl sample_rdvz_state)"
    "interval (rdvz_probe_state sample_rdvz_state) = dur_from_secs 60" "dur_from_secs 60 \<noteq> 0"
    by (simp_all add: sample_rdvz_state_def ttl_duration_def d)
  from rendezvous_renews_once [OF sample_rdvz_period w s tick clock] show ?thesis by blast
qed

text \<open>
  Making the behaviour panics exactly when it is configured with a ttl of zero seconds.
\<close>

theorem zero_ttl_panics:
  assumes "period_checked (rz_tokio A)"
  shows "rdvz_new A k me ttl = Panic \<longleftrightarrow> ttl = Some 0"
proof -
  have "ttl_duration ttl = 0 \<longleftrightarrow> ttl = Some 0"
    by (auto simp: ttl_duration_def dur_from_secs_def nanos_per_sec_def unat_eq_zero split: option.splits)
  then show ?thesis
    using timer_interval_at_Panic [OF assms]
    by (simp add: and_then_eq_Panic rdvz_new_def split_beta Let_def)
qed

lemma zero_ttl_panics_witness: "rdvz_new sample_rdvz (0, 0) ''me'' (Some 0) = Panic"
  using zero_ttl_panics [OF sample_rdvz_period] by simp

end
