(* ===== verification/MdnsIface.thy ===== *)
theory MdnsIface
  imports MdnsRoundTrip Timer
begin

text \<open>
  \<open>src/behaviours/mdns_bhv/iface.rs\<close> with \<open>socket.rs\<close>: the task that serves one network
  interface. The sockets \<open>'s\<close>, the channel to the behaviour \<open>'q\<close>, the timer \<open>'t\<close>, the random
  generator and the shared listen addresses belong to the outside: their operations are the
  fields of an \<open>iface_api\<close> over a state of the world \<open>'w\<close>.
\<close>

section \<open>The outside\<close>

text \<open>The calls on a socket that \<open>new\<close> makes, in the source's terms.\<close>

datatype sock_op =
    SetReuseAddress
  | SetReusePort
  | Bind sock_addr
  | SetMulticastLoopV4
  | SetMulticastTtlV4 u32
  | JoinMulticastV4 u32 u32
  | SetMulticastLoopV6
  | JoinMulticastV6 "128 word" u32
  | SetNonblocking
  | IntoTokio

datatype recv_error = WouldBlock | OtherIoError

datatype try_send_result = Sent | Disconnected | Full

text \<open>
  \<open>sk_recv_from n\<close> receives a datagram of at most \<open>n\<close> bytes; \<open>sk_send_to\<close> answers whether
  the send succeeded.
\<close>

record ('w, 't, 's, 'q, 'a, 'i, 'e, 'n) iface_api =
  if_tokio :: "('t, 'w) tokio_api"
  if_dns :: "('e, 'n) dns_lib"
  if_addr :: "('a, 'i) addr_lib"
  if_translate :: "'a \<Rightarrow> 'a \<Rightarrow> 'a option"
  if_mdns_v4 :: u32
  if_mdns_v6 :: "128 word"
  if_random_u16 :: "'w \<Rightarrow> u16 \<times> 'w"
  if_peer_rng :: "'w \<Rightarrow> peer_rng \<times> 'w"
  if_jitter :: "'w \<Rightarrow> u64 \<times> 'w"
  if_socket :: "bool \<Rightarrow> 'w \<Rightarrow> 's option \<times> 'w"
  if_udp_bind :: "sock_addr \<Rightarrow> 'w \<Rightarrow> 's option \<times> 'w"
  if_sock_op :: "sock_op \<Rightarrow> 's \<Rightarrow> 'w \<Rightarrow> bool \<times> 'w"
  sk_recv_from :: "nat \<Rightarrow> 's \<Rightarrow> 'w \<Rightarrow> (recv_error + bytes \<times> sock_addr) poll \<times> 'w"
  sk_send_to :: "bytes \<Rightarrow> sock_addr \<Rightarrow> 's \<Rightarrow> 'w \<Rightarrow> bool poll \<times> 'w"
  ch_poll_ready :: "'q \<Rightarrow> 'w \<Rightarrow> bool \<times> 'w"
  ch_try_send :: "'i \<times> 'a \<times> instant \<Rightarrow> 'q \<Rightarrow> 'w \<Rightarrow> try_send_result \<times> 'w"
  if_listen_addrs :: "'w \<Rightarrow> 'a list"

section \<open>\<open>socket.rs\<close>\<close>

text \<open>\<open>from_std\<close>: the socket is made non-blocking and registered with tokio.\<close>

definition from_std_ops :: "sock_op list" where
  "from_std_ops = [SetNonblocking, IntoTokio]"

text \<open>\<open>poll_read\<close> fills a prefix of the buffer and gives its length and the sender.\<close>

definition poll_read ::
    "('w, 't, 's, 'q, 'a, 'i, 'e, 'n) iface_api \<Rightarrow> 's \<Rightarrow> bytes \<Rightarrow> 'w
      \<Rightarrow> (recv_error + nat \<times> sock_addr) poll \<times> bytes \<times> 'w" where
  "poll_read A socket buf w =
     (case sk_recv_from A (length buf) socket w of
        (Pending, w1) \<Rightarrow> (Pending, buf, w1)
      | (Ready (Inl err), w1) \<Rightarrow> (Ready (Inl err), buf, w1)
      | (Ready (Inr (filled, addr)), w1) \<Rightarrow>
          (Ready (Inr (length filled, addr)), filled @ drop (length filled) buf, w1))"

definition poll_write ::
    "('w, 't, 's, 'q, 'a, 'i, 'e, 'n) iface_api \<Rightarrow> 's \<Rightarrow> bytes \<Rightarrow> sock_addr \<Rightarrow> 'w
      \<Rightarrow> bool poll \<times> 'w" where
  "poll_write A socket packet to w = sk_send_to A packet to socket w"

section \<open>State\<close>

record ('t, 's, 'q, 'a, 'i) iface =
  iface_addr :: ip_addr
  recv_socket :: 's
  send_socket :: 's
  query_response_sender :: 'q
  recv_buffer :: bytes
  send_buffer :: "bytes list"
  query_interval :: duration
  iface_timeout :: 't
  multicast_addr :: ip_addr
  iface_discovered :: "('i \<times> 'a \<times> instant) list"
  iface_ttl :: duration
  iface_probe :: probe_state
  iface_peer_id :: 'i
  iface_config :: mdns_config

fun sock_ops ::
    "('w, 't, 's, 'q, 'a, 'i, 'e, 'n) iface_api \<Rightarrow> sock_op list \<Rightarrow> 's \<Rightarrow> 'w \<Rightarrow> bool \<times> 'w" where
  "sock_ops A [] s w = (True, w)"
| "sock_ops A (op # rest) s w =
     (let (ok, w1) = if_sock_op A op s w in if ok then sock_ops A rest s w1 else (False, w1))"

definition recv_socket_ops ::
    "('w, 't, 's, 'q, 'a, 'i, 'e, 'n) iface_api \<Rightarrow> ip_addr \<Rightarrow> sock_op list" where
  "recv_socket_ops A addr =
     (case addr of
        V4 a \<Rightarrow> [SetReuseAddress, SetReusePort, Bind \<lparr>ip = V4 0, port = 5353\<rparr>, SetMulticastLoopV4,
                 SetMulticastTtlV4 255, JoinMulticastV4 (if_mdns_v4 A) a] @ from_std_ops
      | V6 _ \<Rightarrow> [SetReuseAddress, SetReusePort, Bind \<lparr>ip = V6 0, port = 5353\<rparr>, SetMulticastLoopV6,
                 JoinMulticastV6 (if_mdns_v6 A) 0] @ from_std_ops)"

definition send_bind_addr :: "ip_addr \<Rightarrow> sock_addr" where
  "send_bind_addr addr =
     (case addr of V4 _ \<Rightarrow> \<lparr>ip = addr, port = 0\<rparr> | V6 _ \<Rightarrow> \<lparr>ip = V6 0, port = 0\<rparr>)"

text \<open>
  A socket made by the calls of the source, every \<open>?\<close> of which ends \<open>new\<close> with the error:
  \<open>None\<close> is \<open>Err\<close>.
\<close>

definition open_socket ::
    "('w, 't, 's, 'q, 'a, 'i, 'e, 'n) iface_api \<Rightarrow> 's option \<times> 'w \<Rightarrow> sock_op list \<Rightarrow> 's option \<times> 'w" where
  "open_socket A made ops =
     (case made of
        (None, w) \<Rightarrow> (None, w)
      | (Some s, w) \<Rightarrow> (let (ok, w1) = sock_ops A ops s w in (if ok then Some s else None, w1)))"

definition iface_new ::
    "('w, 't, 's, 'q, 'a, 'i, 'e, 'n) iface_api \<Rightarrow> ip_addr \<Rightarrow> mdns_config \<Rightarrow> 'i \<Rightarrow> 'q \<Rightarrow> 'w
      \<Rightarrow> (('t, 's, 'q, 'a, 'i) iface option \<times> 'w) outcome" where
  "iface_new A addr config local_peer_id sender w =
     (case open_socket A (if_socket A (is_ipv6 addr) w) (recv_socket_ops A addr) of
        (None, w1) \<Rightarrow> Ret (None, w1)
      | (Some recv, w1) \<Rightarrow>
          (case open_socket A (if_udp_bind A (send_bind_addr addr) w1) from_std_ops of
             (None, w2) \<Rightarrow> Ret (None, w2)
           | (Some snd_sock, w2) \<Rightarrow>
               (let (jitter, w3) = if_jitter A w2
                in and_then (dur_add (cfg_query_interval config) (dur_from_millis jitter)) (\<lambda>qi.
                   let mc = (case addr of V4 _ \<Rightarrow> V4 (if_mdns_v4 A) | V6 _ \<Rightarrow> V6 (if_mdns_v6 A));
                       (now, w4) = tk_now (if_tokio A) w3
                   in and_then (timer_interval_at (if_tokio A) now (cfg_probe_interval config)) (\<lambda>t.
                      Ret (Some \<lparr>iface_addr = addr, recv_socket = recv, send_socket = snd_sock,
                             query_response_sender = sender, recv_buffer = replicate 4096 0,
                             send_buffer = [], query_interval = qi, iface_timeout = t,
                             multicast_addr = mc, iface_discovered = [],
                             iface_ttl = cfg_ttl config,
                             iface_probe = Probing (cfg_probe_interval config),
                             iface_peer_id = local_peer_id, iface_config = config\<rparr>, w4))))))"

definition iface_reset_timer ::
    "('w, 't, 's, 'q, 'a, 'i, 'e, 'n) iface_api \<Rightarrow> ('t, 's, 'q, 'a, 'i) iface \<times> 'w
      \<Rightarrow> (('t, 's, 'q, 'a, 'i) iface \<times> 'w) outcome" where
  "iface_reset_timer A st =
     (case st of (s, w) \<Rightarrow>
        and_then (timer_interval (if_tokio A) (interval (iface_probe s)) w)
          (\<lambda>(t, w1). Ret (s\<lparr>iface_timeout := t\<rparr>, w1)))"

definition mdns_socket :: "('t, 's, 'q, 'a, 'i) iface \<Rightarrow> sock_addr" where
  "mdns_socket s = \<lparr>ip = multicast_addr s, port = 5353\<rparr>"

section \<open>The body of the loop\<close>

text \<open>
  The four priorities, in order. A phase falls through to the next, \<open>continue\<close>s the loop or
  returns from \<open>poll\<close>.
\<close>

datatype 'st flow = Fall 'st | Continue 'st | Return "unit poll" 'st

text \<open>\<open>interval * 2\<close> panics on overflow.\<close>

definition next_probe :: "duration \<Rightarrow> probe_state \<Rightarrow> probe_state outcome" where
  "next_probe qi p =
     (case p of
        Probing d \<Rightarrow>
          and_then (dur_mul d 2) (\<lambda>d2. Ret (if qi \<le> d2 then Finished qi else Probing d))
      | Finished d \<Rightarrow> Ret (Finished d))"

definition phase_timeout ::
    "('w, 't, 's, 'q, 'a, 'i, 'e, 'n) iface_api \<Rightarrow> ('t, 's, 'q, 'a, 'i) iface \<times> 'w
      \<Rightarrow> (('t, 's, 'q, 'a, 'i) iface \<times> 'w) outcome" where
  "phase_timeout A st =
     (case st of (s, w) \<Rightarrow>
        (let (ready, t, w1) = timer_poll_next (if_tokio A) (iface_timeout s) w;
             s1 = s\<lparr>iface_timeout := t\<rparr>
         in if ready
            then (let (rand_id, w2) = if_random_u16 A w1
                  in and_then (build_query rand_id (cfg_service_name (iface_config s1))) (\<lambda>packet.
                     and_then (next_probe (query_interval s1) (iface_probe s1)) (\<lambda>probe.
                       iface_reset_timer A
                         (s1\<lparr>send_buffer := send_buffer s1 @ [packet], iface_probe := probe\<rparr>, w2))))
            else Ret (s1, w1)))"

definition phase_send ::
    "('w, 't, 's, 'q, 'a, 'i, 'e, 'n) iface_api \<Rightarrow> ('t, 's, 'q, 'a, 'i) iface \<times> 'w
      \<Rightarrow> (('t, 's, 'q, 'a, 'i) iface \<times> 'w) flow" where
  "phase_send A st =
     (case st of (s, w) \<Rightarrow>
        (case send_buffer s of
           [] \<Rightarrow> Fall (s, w)
         | packet # rest \<Rightarrow>
             (let s1 = s\<lparr>send_buffer := rest\<rparr>
              in case poll_write A (send_socket s1) packet (mdns_socket s1) w of
                   (Ready _, w1) \<Rightarrow> Continue (s1, w1)
                 | (Pending, w1) \<Rightarrow> Fall (s1\<lparr>send_buffer := packet # send_buffer s1\<rparr>, w1))))"

definition phase_discovered ::
    "('w, 't, 's, 'q, 'a, 'i, 'e, 'n) iface_api \<Rightarrow> ('t, 's, 'q, 'a, 'i) iface \<times> 'w
      \<Rightarrow> (('t, 's, 'q, 'a, 'i) iface \<times> 'w) flow" where
  "phase_discovered A st =
     (case st of (s, w) \<Rightarrow>
        (case ch_poll_ready A (query_response_sender s) w of
           (True, w1) \<Rightarrow>
             (case iface_discovered s of
                [] \<Rightarrow> Fall (s, w1)
              | d # rest \<Rightarrow>
                  (let s1 = s\<lparr>iface_discovered := rest\<rparr>
                   in case ch_try_send A d (query_response_sender s1) w1 of
                        (Sent, w2) \<Rightarrow> Continue (s1, w2)
                      | (Disconnected, w2) \<Rightarrow> Return (Ready ()) (s1, w2)
                      | (Full, w2) \<Rightarrow> Continue (s1\<lparr>iface_discovered := d # iface_discovered s1\<rparr>, w2)))
         | (False, w1) \<Rightarrow> Fall (s, w1)))"

text \<open>The arms of the last \<open>match\<close>.\<close>

definition answer_query ::
    "('w, 't, 's, 'q, 'a, 'i, 'e, 'n) iface_api \<Rightarrow> mdns_query \<Rightarrow> ('t, 's, 'q, 'a, 'i) iface \<times> 'w
      \<Rightarrow> (('t, 's, 'q, 'a, 'i) iface \<times> 'w) outcome" where
  "answer_query A query st =
     (case st of (s, w) \<Rightarrow>
        (let (rnd, w1) = if_peer_rng A w
         in and_then
              (build_query_response (ma_show (if_addr A)) (pid_base58 (if_addr A)) rnd (mq_query_id query)
                 (iface_peer_id s) (if_listen_addrs A w1) (iface_ttl s) (cfg_service_name (iface_config s)))
              (\<lambda>packets. Ret (s\<lparr>send_buffer := send_buffer s @ packets\<rparr>, w1))))"

definition take_response ::
    "('w, 't, 's, 'q, 'a, 'i, 'e, 'n) iface_api \<Rightarrow> ('a, 'i) mdns_response \<Rightarrow> ('t, 's, 'q, 'a, 'i) iface \<times> 'w
      \<Rightarrow> (('t, 's, 'q, 'a, 'i) iface \<times> 'w) outcome" where
  "take_response A response st =
     (case st of (s, w) \<Rightarrow>
        (let (now, w1) = tk_now (if_tokio A) w
         in and_then (extract_discovered (if_addr A) (if_translate A) response now (iface_peer_id s))
              (\<lambda>found.
                 let s1 = s\<lparr>iface_discovered := iface_discovered s @ found\<rparr>
                 in if iface_discovered s1 \<noteq> []
                    then iface_reset_timer A (s1\<lparr>iface_probe := Finished (query_interval s1)\<rparr>, w1)
                    else Ret (s1, w1))))"

definition answer_discovery ::
    "mdns_service_discovery \<Rightarrow> ('t, 's, 'q, 'a, 'i) iface \<times> 'w
      \<Rightarrow> (('t, 's, 'q, 'a, 'i) iface \<times> 'w) outcome" where
  "answer_discovery disc st =
     (case st of (s, w) \<Rightarrow>
        and_then
          (build_service_discovery_response (sd_query_id disc) (iface_ttl s)
             (cfg_service_name (iface_config s)) (cfg_meta_query_service (iface_config s)))
          (\<lambda>packet. Ret (s\<lparr>send_buffer := send_buffer s @ [packet]\<rparr>, w)))"

definition phase_receive ::
    "('w, 't, 's, 'q, 'a, 'i, 'e, 'n) iface_api \<Rightarrow> ('t, 's, 'q, 'a, 'i) iface \<times> 'w
      \<Rightarrow> (('t, 's, 'q, 'a, 'i) iface \<times> 'w) flow outcome" where
  "phase_receive A st =
     (case st of (s, w) \<Rightarrow>
        (let (res, buf, w1) = poll_read A (recv_socket s) (recv_buffer s) w;
             s1 = s\<lparr>recv_buffer := buf\<rparr>
         in case res of
              Ready (Inr (len, from)) \<Rightarrow>
                (case new_from_bytes (if_dns A) (if_addr A) (take len (recv_buffer s1)) from
                        (cfg_service_name_fqdn (iface_config s1))
                        (cfg_meta_query_service_fqdn (iface_config s1)) of
                   Inr (Some (Query query)) \<Rightarrow>
                     and_then (answer_query A query (s1, w1)) (\<lambda>st1. Ret (Continue st1))
                 | Inr (Some (Response response)) \<Rightarrow>
                     and_then (take_response A response (s1, w1)) (\<lambda>st1. Ret (Continue st1))
                 | Inr (Some (ServiceDiscovery disc)) \<Rightarrow>
                     and_then (answer_discovery disc (s1, w1)) (\<lambda>st1. Ret (Continue st1))
                 | Inl err \<Rightarrow> Ret (Return Pending (s1, w1))
                 | Inr None \<Rightarrow> Ret (Return Pending (s1, w1)))
            | Ready (Inl err) \<Rightarrow> Ret (Return Pending (s1, w1))
            | Pending \<Rightarrow> Ret (Return Pending (s1, w1))))"

section \<open>The loop\<close>

definition iface_pass ::
    "('w, 't, 's, 'q, 'a, 'i, 'e, 'n) iface_api \<Rightarrow> ('t, 's, 'q, 'a, 'i) iface \<times> 'w
      \<Rightarrow> (('t, 's, 'q, 'a, 'i) iface \<times> 'w) flow outcome" where
  "iface_pass A st =
     and_then (phase_timeout A st) (\<lambda>st1.
       case phase_send A st1 of
         Fall st2 \<Rightarrow>
           (case phase_discovered A st2 of
              Fall st3 \<Rightarrow> phase_receive A st3
            | flow \<Rightarrow> Ret flow)
       | flow \<Rightarrow> Ret flow)"

partial_function (option) iface_poll ::
    "('w, 't, 's, 'q, 'a, 'i, 'e, 'n) iface_api \<Rightarrow> ('t, 's, 'q, 'a, 'i) iface \<times> 'w
      \<Rightarrow> (unit poll \<times> ('t, 's, 'q, 'a, 'i) iface \<times> 'w) outcome option" where
  "iface_poll A st =
     (case iface_pass A st of
        Panic \<Rightarrow> Some Panic
      | Ret (Continue st1) \<Rightarrow> iface_poll A st1
      | Ret (Return p st1) \<Rightarrow> Some (Ret (p, st1))
      | Ret (Fall st1) \<Rightarrow> Some (Ret (Pending, st1)))"

lemma iface_pass_not_Fall: "iface_pass A st \<noteq> Ret (Fall st1)"
  by (auto simp: iface_pass_def phase_receive_def Let_def split: flow.splits prod.splits
      poll.splits sum.splits option.splits mdns_packet.splits)

text \<open>
  A preorder that every phase respects relates the state before a poll to the state after it.
\<close>

fun flow_state :: "'st flow \<Rightarrow> 'st" where
  "flow_state (Fall st) = st"
| "flow_state (Continue st) = st"
| "flow_state (Return p st) = st"

fun flow_over :: "'st flow \<Rightarrow> bool" where
  "flow_over (Return p st) \<longleftrightarrow> p = Ready ()"
| "flow_over _ \<longleftrightarrow> False"

lemma iface_pass_phases:
  assumes "iface_pass A st = Ret flow"
    and trans: "\<And>a b c ends. R False a b \<Longrightarrow> R ends b c \<Longrightarrow> R ends a c"
    and "\<And>a b. phase_timeout A a = Ret b \<Longrightarrow> R False a b"
    and "\<And>a. R (flow_over (phase_send A a)) a (flow_state (phase_send A a))"
    and "\<And>a. R (flow_over (phase_discovered A a)) a (flow_state (phase_discovered A a))"
    and "\<And>a f. phase_receive A a = Ret f \<Longrightarrow> R (flow_over f) a (flow_state f)"
  shows "R (flow_over flow) st (flow_state flow)"
proof -
  obtain st1 where st1: "phase_timeout A st = Ret st1"
    using assms(1) by (auto simp: iface_pass_def)
  have sent: "R (flow_over (phase_send A st1)) st (flow_state (phase_send A st1))"
    by (rule trans [OF assms(3) [OF st1] assms(4)])
  show ?thesis
  proof (cases "\<exists>st2. phase_send A st1 = Fall st2")
    case False
    with st1 assms(1) have "flow = phase_send A st1"
      by (cases "phase_send A st1") (auto simp: iface_pass_def)
    with sent show ?thesis by simp
  next
    case True
    then obtain st2 where st2: "phase_send A st1 = Fall st2" by blast
    with sent have "R False st st2" by simp
    from trans [OF this assms(5)]
    have disc: "R (flow_over (phase_discovered A st2)) st (flow_state (phase_discovered A st2))" .
    show ?thesis
    proof (cases "\<exists>st3. phase_discovered A st2 = Fall st3")
      case False
      with st1 st2 assms(1) have "flow = phase_discovered A st2"
        by (cases "phase_discovered A st2") (auto simp: iface_pass_def)
      with disc show ?thesis by simp
    next
      case True
      then obtain st3 where st3: "phase_discovered A st2 = Fall st3" by blast
      with st1 st2 assms(1) have "phase_receive A st3 = Ret flow" by (simp add: iface_pass_def)
      from trans [OF _ assms(6) [OF this]] disc st3 show ?thesis by simp
    qed
  qed
qed

lemma iface_poll_induct [consumes 1, case_names return again]:
  assumes "iface_poll A st = Some (Ret (p, st'))"
    and return: "\<And>st p st'. iface_pass A st = Ret (Return p st') \<Longrightarrow> Q p st st'"
    and again: "\<And>st st1 p st'. iface_pass A st = Ret (Continue st1) \<Longrightarrow> Q p st1 st' \<Longrightarrow> Q p st st'"
  shows "Q p st st'"
proof -
  have "api = A \<longrightarrow> (\<forall>p st'. r = Ret (p, st') \<longrightarrow> Q p st st')" if "iface_poll api st = Some r" for api r st
  proof (rule iface_poll.raw_induct [where P = "\<lambda>api st r. api = A \<longrightarrow> (\<forall>p st'. r = Ret (p, st') \<longrightarrow> Q p st st')",
        OF _ that], intro impI allI)
    fix f api st r p st'
    assume IH: "\<And>api st r. f api st = Some r \<Longrightarrow> api = A \<longrightarrow> (\<forall>p st'. r = Ret (p, st') \<longrightarrow> Q p st st')"
      and body: "(case iface_pass api st of
          Panic \<Rightarrow> Some Panic
        | Ret (Continue st1) \<Rightarrow> f api st1
        | Ret (Return p st1) \<Rightarrow> Some (Ret (p, st1))
        | Ret (Fall st1) \<Rightarrow> Some (Ret (Pending, st1))) = Some r"
      and eqs: "api = A" "r = Ret (p, st')"
    show "Q p st st'"
    proof (cases "iface_pass A st")
      case Panic
      with body eqs show ?thesis by simp
    next
      case (Ret flow)
      show ?thesis
      proof (cases flow)
        case (Fall st1)
        with Ret iface_pass_not_Fall [of A st st1] show ?thesis by simp
      next
        case (Continue st1)
        with Ret body eqs have "f A st1 = Some (Ret (p, st'))" by simp
        with IH have "Q p st1 st'" by blast
        with Ret Continue again show ?thesis by blast
      next
        case (Return p1 st1)
        with Ret body eqs return show ?thesis by simp
      qed
    qed
  qed
  with assms(1) show ?thesis by blast
qed

section \<open>An example of an outside\<close>

text \<open>
  Its state is the number of ticks and the datagrams to come; the sockets and the channel always
  take what they are given, and the clock stands still.
\<close>

definition sample_iface_api ::
    "(nat \<times> (bytes \<times> sock_addr) list, unit, unit, unit, nat protocol list, nat, unit, bytes list) iface_api" where
  "sample_iface_api =
     \<lparr>if_tokio = \<lparr>tk_now = (\<lambda>w. (0, w)), tk_interval_at = (\<lambda>start d. if d = 0 then Panic else Ret ()),
        tk_skip_missed = (\<lambda>t. t),
        tk_poll_tick = (\<lambda>t (n, ds). if n = 0 then (False, t, n, ds) else (True, t, n - 1, ds))\<rparr>,
      if_dns = wire_lib, if_addr = sample_lib, if_translate = (\<lambda>a obs. Some a),
      if_mdns_v4 = 0xE00000FB, if_mdns_v6 = 0xFF0200000000000000000000000000FB,
      if_random_u16 = (\<lambda>w. (7, w)), if_peer_rng = (\<lambda>w. (sample_rng, w)), if_jitter = (\<lambda>w. (5, w)),
      if_socket = (\<lambda>v6 w. (Some (), w)), if_udp_bind = (\<lambda>a w. (Some (), w)),
      if_sock_op = (\<lambda>op s w. (True, w)),
      sk_recv_from = (\<lambda>n s (k, ds). case ds of
          [] \<Rightarrow> (Pending, k, [])
        | (d, from) # rest \<Rightarrow> (Ready (Inr (take n d, from)), k, rest)),
      sk_send_to = (\<lambda>p to s w. (Ready True, w)),
      ch_poll_ready = (\<lambda>q w. (True, w)), ch_try_send = (\<lambda>d q w. (Sent, w)),
      if_listen_addrs = (\<lambda>w. [[Ip4 0x01020304, Tcp 5000]])\<rparr>"

definition sample_iface ::
    "bytes list \<Rightarrow> (nat \<times> nat protocol list \<times> instant) list
      \<Rightarrow> (unit, unit, unit, nat protocol list, nat) iface" where
  "sample_iface ps ds =
     \<lparr>iface_addr = V4 9, recv_socket = (), send_socket = (), query_response_sender = (),
      recv_buffer = replicate 4 0, send_buffer = ps, query_interval = 3000000000,
      iface_timeout = (), multicast_addr = V4 0xE00000FB, iface_discovered = ds,
      iface_ttl = 300000000000, iface_probe = Probing 2000000000, iface_peer_id = 1,
      iface_config = config_service_name mdns_config_default []\<rparr>"

section \<open>What a poll may change\<close>

text \<open>The fields no poll changes.\<close>

definition settings ::
    "('t, 's, 'q, 'a, 'i) iface \<Rightarrow> ip_addr \<times> 's \<times> 's \<times> 'q \<times> duration \<times> ip_addr \<times> duration \<times> 'i \<times> mdns_config" where
  "settings s = (iface_addr s, recv_socket s, send_socket s, query_response_sender s, query_interval s,
     multicast_addr s, iface_ttl s, iface_peer_id s, iface_config s)"

section \<open>Causes and effects\<close>

text \<open>
  What a task learns from outside, in order: a tick with the id drawn for its query, a datagram with
  its sender, the draws and the listen addresses for an answer, a reading of the clock.
\<close>

datatype 'a cause = Ticked u16 | Received bytes sock_addr | Drew peer_rng "'a list" | ReadClock instant

definition packet_of where
  "packet_of A s datagram sender =
     new_from_bytes (if_dns A) (if_addr A) datagram sender
       (cfg_service_name_fqdn (iface_config s)) (cfg_meta_query_service_fqdn (iface_config s))"

text \<open>What follows at once: the draws, a reading of the clock.\<close>

fun drawn_next :: "'a cause list \<Rightarrow> (peer_rng \<times> 'a list) option" where
  "drawn_next (Drew rnd listen # _) = Some (rnd, listen)"
| "drawn_next _ = None"

fun read_next :: "'a cause list \<Rightarrow> instant option" where
  "read_next (ReadClock now # _) = Some now"
| "read_next _ = None"

text \<open>
  The packets they call for: a query for a tick, an answer to a query, with the draws that follow
  it, and one to a service discovery.
\<close>

definition answers_due where
  "answers_due A s datagram sender drawn =
     (case packet_of A s datagram sender of
        Inr (Some (Query q)) \<Rightarrow>
          (case drawn of
             Some (rnd, listen) \<Rightarrow>
               returned (build_query_response (ma_show (if_addr A)) (pid_base58 (if_addr A)) rnd (mq_query_id q)
                 (iface_peer_id s) listen (iface_ttl s) (cfg_service_name (iface_config s)))
           | None \<Rightarrow> [])
      | Inr (Some (ServiceDiscovery disc)) \<Rightarrow>
          [returned (build_service_discovery_response (sd_query_id disc) (iface_ttl s)
             (cfg_service_name (iface_config s)) (cfg_meta_query_service (iface_config s)))]
      | _ \<Rightarrow> [])"

fun due_packets where
  "due_packets A s [] = []"
| "due_packets A s (Ticked i # cs) =
     returned (build_query i (cfg_service_name (iface_config s))) # due_packets A s cs"
| "due_packets A s (Received datagram sender # cs) = answers_due A s datagram sender (drawn_next cs) @ due_packets A s cs"
| "due_packets A s (_ # cs) = due_packets A s cs"

text \<open>The addresses they bring: those of a response, as of the clock's reading that follows it.\<close>

definition discoveries_due where
  "discoveries_due A s datagram sender read =
     (case packet_of A s datagram sender of
        Inr (Some (Response r)) \<Rightarrow>
          (case read of
             Some now \<Rightarrow> returned (extract_discovered (if_addr A) (if_translate A) r now (iface_peer_id s))
           | None \<Rightarrow> [])
      | _ \<Rightarrow> [])"

fun due_addresses where
  "due_addresses A s [] = []"
| "due_addresses A s (Received datagram sender # cs) = discoveries_due A s datagram sender (read_next cs) @ due_addresses A s cs"
| "due_addresses A s (_ # cs) = due_addresses A s cs"

text \<open>A run of causes that does not continue an earlier one.\<close>

definition starts_anew :: "'a cause list \<Rightarrow> bool" where
  "starts_anew cs \<longleftrightarrow> drawn_next cs = None \<and> read_next cs = None"

lemma starts_anew_simps [simp]:
  "starts_anew []" "starts_anew (Ticked i # cs)" "starts_anew (Received datagram sender # cs)"
  by (simp_all add: starts_anew_def)

lemma next_append:
  assumes "starts_anew cs'"
  shows "drawn_next (cs @ cs') = drawn_next cs" "read_next (cs @ cs') = read_next cs"
  using assms
  by (cases cs; (cases "hd cs")?; simp add: starts_anew_def)+

lemma starts_anew_append: "starts_anew cs \<Longrightarrow> starts_anew cs' \<Longrightarrow> starts_anew (cs @ cs')"
  using next_append [of cs' cs] by (simp add: starts_anew_def)

lemma due_append:
  assumes "starts_anew cs'"
  shows "due_packets A s (cs @ cs') = due_packets A s cs @ due_packets A s cs'"
    and "due_addresses A s (cs @ cs') = due_addresses A s cs @ due_addresses A s cs'"
proof -
  note next_append [OF assms, simp]
  show "due_packets A s (cs @ cs') = due_packets A s cs @ due_packets A s cs'"
    by (induction A s cs rule: due_packets.induct) simp_all
  show "due_addresses A s (cs @ cs') = due_addresses A s cs @ due_addresses A s cs'"
    by (induction A s cs rule: due_addresses.induct) simp_all
qed

lemma due_cong:
  assumes "\<And>datagram sender drawn. answers_due A' s' datagram sender drawn = answers_due A s datagram sender drawn"
    and "\<And>datagram sender read. discoveries_due A' s' datagram sender read = discoveries_due A s datagram sender read"
    and "iface_config s' = iface_config s"
  shows "due_packets A' s' cs = due_packets A s cs" "due_addresses A' s' cs = due_addresses A s cs"
proof (induction cs)
  case (Cons c cs)
  case 1
  with Cons assms show ?case by (cases c) simp_all
  case 2
  with Cons assms show ?case by (cases c) simp_all
qed simp_all

lemma due_settings:
  assumes "settings s' = settings s"
  shows "due_packets A s' cs = due_packets A s cs" "due_addresses A s' cs = due_addresses A s cs"
proof -
  have eqs: "iface_config s' = iface_config s" "iface_ttl s' = iface_ttl s" "iface_peer_id s' = iface_peer_id s"
    using assms by (simp_all add: settings_def)
  then have packets: "packet_of A s' d f = packet_of A s d f" for d f by (simp add: packet_of_def)
  show "due_packets A s' cs = due_packets A s cs" "due_addresses A s' cs = due_addresses A s cs"
    by (rule due_cong; unfold answers_due_def discoveries_due_def packets eqs; rule refl)+
qed

text \<open>
  An observer of the world: what was handed to the send socket and to the channel so far and
  whether it was taken there or refused, and the causes. The laws are about the outside: no
  other call of it changes the three.
\<close>

locale observed_iface =
  fixes A :: "('w, 't, 's, 'q, 'a, 'i, 'e, 'n) iface_api"
    and tried :: "'w \<Rightarrow> (bytes \<times> bool) list"
    and offered :: "'w \<Rightarrow> (('i \<times> 'a \<times> instant) \<times> bool) list"
    and causes :: "'w \<Rightarrow> 'a cause list"
  assumes now_obs: "tk_now (if_tokio A) w = (now, w') \<Longrightarrow>
      tried w' = tried w \<and> offered w' = offered w \<and> causes w' = causes w @ [ReadClock now]"
    and tick_obs: "tk_poll_tick (if_tokio A) t w = (ticked, t', w') \<Longrightarrow>
      tried w' = tried w \<and> offered w' = offered w \<and> causes w' = causes w"
    and random_obs: "if_random_u16 A w = (rid, w') \<Longrightarrow>
      tried w' = tried w \<and> offered w' = offered w \<and> causes w' = causes w @ [Ticked rid]"
    and rng_obs: "if_peer_rng A w = (rnd, w') \<Longrightarrow>
      tried w' = tried w \<and> offered w' = offered w \<and> causes w' = causes w @ [Drew rnd (if_listen_addrs A w')]"
    and recv_obs: "sk_recv_from A n sk w = (got, w') \<Longrightarrow>
      tried w' = tried w \<and> offered w' = offered w \<and>
      causes w' = causes w @ (case got of Ready (Inr (datagram, sender)) \<Rightarrow> [Received datagram sender] | _ \<Rightarrow> [])"
    and send_obs: "sk_send_to A p to sk w = (sent, w') \<Longrightarrow>
      tried w' = tried w @ (case sent of Ready ok \<Rightarrow> [(p, ok)] | Pending \<Rightarrow> []) \<and>
      offered w' = offered w \<and> causes w' = causes w"
    and ready_obs: "ch_poll_ready A q w = (ready, w') \<Longrightarrow>
      tried w' = tried w \<and> offered w' = offered w \<and> causes w' = causes w"
    and try_send_obs: "ch_try_send A d q w = (answer, w') \<Longrightarrow>
      tried w' = tried w \<and> causes w' = causes w \<and>
      offered w' = offered w @ (case answer of Sent \<Rightarrow> [(d, True)] | Disconnected \<Rightarrow> [(d, False)] | Full \<Rightarrow> [])"
begin

text \<open>
  What leaves a queue leaves it at the front, and what comes is due by the causes. No offer is
  refused, but the last one of a poll that \<open>ends\<close> the task. The probing interval stays or
  becomes the query interval.
\<close>

definition offers_end :: "bool \<Rightarrow> (('i \<times> 'a \<times> instant) \<times> bool) list \<Rightarrow> bool" where
  "offers_end ends offers \<longleftrightarrow>
     (if ends then (\<exists>taken d. offers = taken @ [(d, False)] \<and> list_all snd taken) else list_all snd offers)"

definition grows_by where
  "grows_by tries offers cs st st' \<longleftrightarrow>
     settings (fst st') = settings (fst st) \<and>
     (iface_probe (fst st') = iface_probe (fst st) \<or> iface_probe (fst st') = Finished (query_interval (fst st))) \<and>
     tried (snd st') = tried (snd st) @ tries \<and>
     map fst tries @ send_buffer (fst st') = send_buffer (fst st) @ due_packets A (fst st) cs \<and>
     offered (snd st') = offered (snd st) @ offers \<and>
     map fst offers @ iface_discovered (fst st') = iface_discovered (fst st) @ due_addresses A (fst st) cs \<and>
     causes (snd st') = causes (snd st) @ cs \<and> starts_anew cs"

definition grows :: "bool \<Rightarrow> ('t, 's, 'q, 'a, 'i) iface \<times> 'w \<Rightarrow> ('t, 's, 'q, 'a, 'i) iface \<times> 'w \<Rightarrow> bool" where
  "grows ends st st' \<longleftrightarrow> (\<exists>tries offers cs. grows_by tries offers cs st st' \<and> offers_end ends offers)"

lemma grows_by_trans:
  assumes "grows_by t1 o1 c1 a b" "grows_by t2 o2 c2 b c"
  shows "grows_by (t1 @ t2) (o1 @ o2) (c1 @ c2) a c"
proof -
  note ab = assms(1) [unfolded grows_by_def] and bc = assms(2) [unfolded grows_by_def]
  have same: "settings (fst b) = settings (fst a)" using ab by blast
  then have qi: "query_interval (fst b) = query_interval (fst a)" by (simp add: settings_def)
  have anew: "starts_anew c2" using bc by blast
  have "map fst (t1 @ t2) @ send_buffer (fst c) = (map fst t1 @ send_buffer (fst b)) @ due_packets A (fst b) c2"
    "map fst (o1 @ o2) @ iface_discovered (fst c) = (map fst o1 @ iface_discovered (fst b)) @ due_addresses A (fst b) c2"
    using bc by simp_all
  then have "map fst (t1 @ t2) @ send_buffer (fst c) = send_buffer (fst a) @ due_packets A (fst a) (c1 @ c2)"
    "map fst (o1 @ o2) @ iface_discovered (fst c) = iface_discovered (fst a) @ due_addresses A (fst a) (c1 @ c2)"
    using ab by (simp_all add: due_append [OF anew] due_settings [OF same])
  moreover have "settings (fst c) = settings (fst a)" "starts_anew (c1 @ c2)"
    "tried (snd c) = tried (snd a) @ t1 @ t2" "offered (snd c) = offered (snd a) @ o1 @ o2"
    "causes (snd c) = causes (snd a) @ c1 @ c2"
    using ab bc by (simp_all add: starts_anew_append)
  moreover have "iface_probe (fst c) = iface_probe (fst a) \<or> iface_probe (fst c) = Finished (query_interval (fst a))"
    using ab bc qi by (elim conjE disjE) simp_all
  ultimately show ?thesis by (simp add: grows_by_def)
qed

lemma grows_trans: "grows False a b \<Longrightarrow> grows ends b c \<Longrightarrow> grows ends a c"
proof -
  assume "grows False a b" "grows ends b c"
  then obtain t1 o1 c1 t2 o2 c2 where "grows_by t1 o1 c1 a b" "offers_end False o1"
    "grows_by t2 o2 c2 b c" "offers_end ends o2" unfolding grows_def by blast
  moreover from this have "offers_end ends (o1 @ o2)"
    by (auto simp: offers_end_def split: if_splits)
  ultimately show ?thesis using grows_by_trans unfolding grows_def by blast
qed

lemma growsI:
  assumes "settings s' = settings s" "iface_probe s' = iface_probe s \<or> iface_probe s' = Finished (query_interval s)"
    and "tried w' = tried w @ tries" "map fst tries @ send_buffer s' = send_buffer s @ due_packets A s cs"
    and "offered w' = offered w @ offers"
    and "map fst offers @ iface_discovered s' = iface_discovered s @ due_addresses A s cs"
    and "causes w' = causes w @ cs" "starts_anew cs" "offers_end ends offers"
  shows "grows ends (s, w) (s', w')"
  unfolding grows_def grows_by_def fst_conv snd_conv using assms by blast

lemma grows_quietly:
  assumes "settings s' = settings s" "iface_probe s' = iface_probe s"
    and "send_buffer s' = send_buffer s" "iface_discovered s' = iface_discovered s"
    and "tried w' = tried w \<and> offered w' = offered w \<and> causes w' = causes w"
  shows "grows False (s, w) (s', w')"
  by (rule growsI [where tries = "[]" and offers = "[]" and cs = "[]"])
    (use assms in \<open>auto simp: offers_end_def\<close>)

lemma timer_obs:
  assumes "iface_reset_timer A (s, w) = Ret st'"
  shows "\<exists>t w' now. st' = (s\<lparr>iface_timeout := t\<rparr>, w') \<and> tried w' = tried w \<and> offered w' = offered w \<and>
     causes w' = causes w @ [ReadClock now]"
proof -
  obtain now w1 where now: "tk_now (if_tokio A) w = (now, w1)" by force
  from now_obs [OF now] assms now show ?thesis
    by (auto simp: iface_reset_timer_def timer_interval_def)
qed

lemma next_probe_cases: "next_probe qi p = Ret p' \<Longrightarrow> p' = p \<or> p' = Finished qi"
  by (auto simp: next_probe_def split: probe_state.splits if_splits)

lemma grows_send: "grows (flow_over (phase_send A st)) st (flow_state (phase_send A st))"
proof -
  obtain s w where st: "st = (s, w)" by force
  show ?thesis
  proof (cases "send_buffer s")
    case Nil
    then show ?thesis by (simp add: st phase_send_def grows_quietly)
  next
    case (Cons packet rest)
    obtain r w1 where r: "sk_send_to A packet (mdns_socket s) (send_socket s) w = (r, w1)" by force
    have "mdns_socket (s\<lparr>send_buffer := rest\<rparr>) = mdns_socket s" by (simp add: mdns_socket_def)
    with r have phase: "phase_send A st =
        (case r of Ready _ \<Rightarrow> Continue (s\<lparr>send_buffer := rest\<rparr>, w1) | Pending \<Rightarrow> Fall (s\<lparr>send_buffer := packet # rest\<rparr>, w1))"
      by (simp add: st phase_send_def poll_write_def Cons split: poll.splits)
    show ?thesis
    proof (cases r)
      case (Ready ok)
      with send_obs [OF r] Cons phase show ?thesis
        by (simp add: st, intro growsI [where tries = "[(packet, ok)]" and offers = "[]" and cs = "[]"])
          (simp_all add: settings_def offers_end_def)
    next
      case Pending
      with send_obs [OF r] Cons phase show ?thesis
        by (simp add: st, intro grows_quietly) (simp_all add: settings_def)
    qed
  qed
qed

lemma grows_discovered: "grows (flow_over (phase_discovered A st)) st (flow_state (phase_discovered A st))"
proof -
  obtain s w where st: "st = (s, w)" by force
  obtain ready w1 where ready: "ch_poll_ready A (query_response_sender s) w = (ready, w1)" by force
  note w1 = ready_obs [OF ready]
  show ?thesis
  proof (cases "ready \<and> iface_discovered s \<noteq> []")
    case False
    with ready have "phase_discovered A st = Fall (s, w1)"
      by (cases "iface_discovered s"; cases ready) (auto simp: st phase_discovered_def)
    with w1 show ?thesis by (simp add: st grows_quietly)
  next
    case True
    then obtain peer addr expiry rest where "iface_discovered s = (peer, addr, expiry) # rest"
      by (cases "iface_discovered s") auto
    then obtain d where d: "iface_discovered s = d # rest" and triple: "d = (peer, addr, expiry)" by blast
    obtain r w2 where r: "ch_try_send A d (query_response_sender s) w1 = (r, w2)" by force
    have phase: "phase_discovered A st = (case r of
        Sent \<Rightarrow> Continue (s\<lparr>iface_discovered := rest\<rparr>, w2)
      | Disconnected \<Rightarrow> Return (Ready ()) (s\<lparr>iface_discovered := rest\<rparr>, w2)
      | Full \<Rightarrow> Continue (s\<lparr>iface_discovered := d # rest\<rparr>, w2))"
      using True ready d r by (cases r) (simp_all add: st phase_discovered_def)
    show ?thesis
    proof (cases r)
      case Sent
      with try_send_obs [OF r] w1 d phase show ?thesis
        by (simp add: st, intro growsI [where tries = "[]" and offers = "[(d, True)]" and cs = "[]"])
          (simp_all add: settings_def offers_end_def triple)
    next
      case Disconnected
      with try_send_obs [OF r] w1 d phase show ?thesis
        by (simp add: st, intro growsI [where tries = "[]" and offers = "[(d, False)]" and cs = "[]"])
          (simp_all add: settings_def offers_end_def triple)
    next
      case Full
      with try_send_obs [OF r] w1 d phase show ?thesis
        by (simp add: st, intro grows_quietly) (simp_all add: settings_def)
    qed
  qed
qed

lemma grows_timeout:
  assumes "phase_timeout A st = Ret st'"
  shows "grows False st st'"
proof -
  obtain s w where st: "st = (s, w)" by force
  obtain ready t w1 where tick: "tk_poll_tick (if_tokio A) (iface_timeout s) w = (ready, t, w1)" by (metis prod.exhaust)
  note w1 = tick_obs [OF tick]
  show ?thesis
  proof (cases ready)
    case False
    with assms tick have "st' = (s\<lparr>iface_timeout := t\<rparr>, w1)"
      by (simp add: st phase_timeout_def timer_poll_next_def)
    with w1 show ?thesis by (simp add: st settings_def grows_quietly)
  next
    case True
    obtain rid w2 where rid: "if_random_u16 A w1 = (rid, w2)" by force
    from assms True tick rid obtain packet probe where
      packet: "build_query rid (cfg_service_name (iface_config s)) = Ret packet"
      and probe: "next_probe (query_interval s) (iface_probe s) = Ret probe"
      and reset: "iface_reset_timer A (s\<lparr>iface_timeout := t, send_buffer := send_buffer s @ [packet],
          iface_probe := probe\<rparr>, w2) = Ret st'"
      by (auto simp: st phase_timeout_def timer_poll_next_def)
    from timer_obs [OF reset] obtain t' w' now where
      st': "st' = (s\<lparr>iface_timeout := t, send_buffer := send_buffer s @ [packet], iface_probe := probe,
        iface_timeout := t'\<rparr>, w')"
      and w': "tried w' = tried w2" "offered w' = offered w2" "causes w' = causes w2 @ [ReadClock now]" by blast
    have "tried w' = tried w @ []" "offered w' = offered w @ []"
      "causes w' = causes w @ [Ticked rid, ReadClock now]"
      using w1 w' random_obs [OF rid] by simp_all
    then show ?thesis
      unfolding st st' using next_probe_cases [OF probe]
      by (intro growsI [where tries = "[]" and offers = "[]" and cs = "[Ticked rid, ReadClock now]"])
        (simp_all add: settings_def offers_end_def packet)
  qed
qed

text \<open>A datagram \<open>Received d f\<close> in a state \<open>s\<close> whose receiving left the world \<open>w1\<close>.\<close>

lemma grows_response:
  assumes "take_response A response (s, w1) = Ret st'"
    and "packet_of A s datagram sender = Inr (Some (Response response))"
    and w1: "tried w1 = tried w" "offered w1 = offered w" "causes w1 = causes w @ [Received datagram sender]"
  shows "grows False (s, w) st'"
proof -
  obtain now w2 where now: "tk_now (if_tokio A) w1 = (now, w2)" by force
  note w2 = now_obs [OF now]
  from assms(1) now obtain ds where
    ds: "extract_discovered (if_addr A) (if_translate A) response now (iface_peer_id s) = Ret ds"
    and st': "st' = (s\<lparr>iface_discovered := iface_discovered s @ ds\<rparr>, w2) \<or>
      iface_reset_timer A (s\<lparr>iface_discovered := iface_discovered s @ ds,
        iface_probe := Finished (query_interval s)\<rparr>, w2) = Ret st'"
    by (auto simp: take_response_def Let_def split: if_splits)
  from st' show ?thesis
  proof
    assume "st' = (s\<lparr>iface_discovered := iface_discovered s @ ds\<rparr>, w2)"
    then show ?thesis
      by (simp, intro growsI [where tries = "[]" and offers = "[]" and cs = "[Received datagram sender, ReadClock now]"])
        (use w1 w2 ds assms(2) in \<open>simp_all add: settings_def offers_end_def answers_due_def discoveries_due_def\<close>)
  next
    assume "iface_reset_timer A (s\<lparr>iface_discovered := iface_discovered s @ ds,
        iface_probe := Finished (query_interval s)\<rparr>, w2) = Ret st'"
    from timer_obs [OF this] obtain t w' now' where
      st': "st' = (s\<lparr>iface_discovered := iface_discovered s @ ds,
        iface_probe := Finished (query_interval s), iface_timeout := t\<rparr>, w')"
      and w': "tried w' = tried w2" "offered w' = offered w2" "causes w' = causes w2 @ [ReadClock now']" by blast
    have "tried w' = tried w @ []" "offered w' = offered w @ []"
      "causes w' = causes w @ [Received datagram sender, ReadClock now, ReadClock now']"
      using w1 w2 w' by simp_all
    then show ?thesis
      unfolding st' by (intro growsI [where tries = "[]" and offers = "[]"
            and cs = "[Received datagram sender, ReadClock now, ReadClock now']"])
        (simp_all add: settings_def offers_end_def answers_due_def discoveries_due_def ds assms(2))
  qed
qed

lemma grows_query:
  assumes "answer_query A query (s, w1) = Ret st'"
    and "packet_of A s datagram sender = Inr (Some (Query query))"
    and w1: "tried w1 = tried w" "offered w1 = offered w" "causes w1 = causes w @ [Received datagram sender]"
  shows "grows False (s, w) st'"
proof -
  obtain rnd w2 where rnd: "if_peer_rng A w1 = (rnd, w2)" by (metis prod.exhaust)
  from assms(1) rnd obtain packets where
    packets: "build_query_response (ma_show (if_addr A)) (pid_base58 (if_addr A)) rnd (mq_query_id query)
       (iface_peer_id s) (if_listen_addrs A w2) (iface_ttl s) (cfg_service_name (iface_config s)) = Ret packets"
    and st': "st' = (s\<lparr>send_buffer := send_buffer s @ packets\<rparr>, w2)"
    by (auto simp: answer_query_def)
  show ?thesis
    unfolding st' by (rule growsI [where tries = "[]" and offers = "[]"
          and cs = "[Received datagram sender, Drew rnd (if_listen_addrs A w2)]"])
      (use w1 rng_obs [OF rnd] packets assms(2) in \<open>simp_all add: settings_def offers_end_def answers_due_def discoveries_due_def\<close>)
qed

lemma grows_discovery:
  assumes "answer_discovery disc (s, w1) = Ret st'"
    and "packet_of A s datagram sender = Inr (Some (ServiceDiscovery disc))"
    and w1: "tried w1 = tried w" "offered w1 = offered w" "causes w1 = causes w @ [Received datagram sender]"
  shows "grows False (s, w) st'"
proof -
  from assms(1) obtain packet where
    packet: "build_service_discovery_response (sd_query_id disc) (iface_ttl s) (cfg_service_name (iface_config s))
      (cfg_meta_query_service (iface_config s)) = Ret packet"
    and st': "st' = (s\<lparr>send_buffer := send_buffer s @ [packet]\<rparr>, w1)"
    by (auto simp: answer_discovery_def)
  show ?thesis
    unfolding st' by (rule growsI [where tries = "[]" and offers = "[]" and cs = "[Received datagram sender]"])
      (use w1 packet assms(2) in \<open>simp_all add: settings_def offers_end_def answers_due_def discoveries_due_def\<close>)
qed

lemma grows_ignored:
  assumes "\<nexists>packet. packet_of A s datagram sender = Inr (Some packet)"
    and "tried w1 = tried w" "offered w1 = offered w" "causes w1 = causes w @ [Received datagram sender]"
  shows "grows False (s, w) (s, w1)"
  by (rule growsI [where tries = "[]" and offers = "[]" and cs = "[Received datagram sender]"])
    (use assms in \<open>auto simp: offers_end_def answers_due_def discoveries_due_def split: sum.splits option.splits\<close>)

lemma grows_receive:
  assumes "phase_receive A st = Ret flow"
  shows "grows (flow_over flow) st (flow_state flow)"
proof -
  obtain s w where st: "st = (s, w)" by force
  obtain got w1 where got: "sk_recv_from A (length (recv_buffer s)) (recv_socket s) w = (got, w1)" by force
  note w1 = recv_obs [OF got]
  show ?thesis
  proof (cases "\<exists>datagram sender. got = Ready (Inr (datagram, sender))")
    case False
    with assms got have "flow = Return Pending (s, w1)"
      by (auto simp: st phase_receive_def poll_read_def split: poll.splits sum.splits)
    with False w1 show ?thesis
      by (auto simp: st intro!: grows_quietly split: poll.splits sum.splits)
  next
    case True
    then obtain datagram sender where ds: "got = Ready (Inr (datagram, sender))" by blast
    let ?s = "s\<lparr>recv_buffer := datagram @ drop (length datagram) (recv_buffer s)\<rparr>"
    have quiet: "grows False (s, w) (?s, w)" by (rule grows_quietly) (simp_all add: settings_def)
    have w1: "tried w1 = tried w" "offered w1 = offered w" "causes w1 = causes w @ [Received datagram sender]"
      using w1 ds by simp_all
    have read: "poll_read A (recv_socket s) (recv_buffer s) w = (Ready (Inr (length datagram, sender)), recv_buffer ?s, w1)"
      using got ds by (simp add: poll_read_def)
    have "grows (flow_over flow) (?s, w) (flow_state flow)"
    proof (cases "\<exists>packet. packet_of A ?s datagram sender = Inr (Some packet)")
      case False
      then have "flow = Return Pending (?s, w1)"
        using assms read by (auto simp: st phase_receive_def packet_of_def Let_def split: sum.splits option.splits)
      with grows_ignored [OF False w1] show ?thesis by simp
    next
      case True
      then obtain packet where packet: "packet_of A ?s datagram sender = Inr (Some packet)" by blast
      have flow: "\<exists>st1. flow = Continue st1 \<and> (case packet of
          Query query \<Rightarrow> answer_query A query (?s, w1) | Response response \<Rightarrow> take_response A response (?s, w1)
        | ServiceDiscovery disc \<Rightarrow> answer_discovery disc (?s, w1)) = Ret st1"
        using assms read packet by (auto simp: st phase_receive_def packet_of_def Let_def split: mdns_packet.splits)
      with packet grows_query [OF _ _ w1] grows_response [OF _ _ w1] grows_discovery [OF _ _ w1] show ?thesis
        by (cases packet) auto
    qed
    with quiet show ?thesis unfolding st by (rule grows_trans)
  qed
qed

lemma pass_grows: "iface_pass A st = Ret flow \<Longrightarrow> grows (flow_over flow) st (flow_state flow)"
  by (rule iface_pass_phases [where R = grows])
    (auto intro: grows_trans grows_timeout grows_send grows_discovered grows_receive)

lemma poll_grows: "iface_poll A st = Some (Ret (p, st')) \<Longrightarrow> grows (p = Ready ()) st st'"
proof (induction rule: iface_poll_induct)
  case (return st p st')
  from pass_grows [OF return] show ?case by simp
next
  case (again st st1 p st')
  from pass_grows [OF again(1)] again(2) show ?case using grows_trans by simp
qed

end

section \<open>Logs of what goes in and out of an interface\<close>

text \<open>Any outside with logs beside it: the three of \<open>observed_iface\<close>.\<close>

record ('i, 'a) iface_log =
  packets_tried :: "(bytes \<times> bool) list"
  addresses_offered :: "(('i \<times> 'a \<times> instant) \<times> bool) list"
  iface_causes :: "'a cause list"

definition log_cause :: "('r \<Rightarrow> 'w \<Rightarrow> 'a cause list) \<Rightarrow> ('w \<Rightarrow> 'r \<times> 'w) \<Rightarrow> 'w \<times> ('i, 'a) iface_log
    \<Rightarrow> 'r \<times> 'w \<times> ('i, 'a) iface_log" where
  "log_cause g f = (\<lambda>(w, l). case f w of (r, w1) \<Rightarrow> (r, w1, l\<lparr>iface_causes := iface_causes l @ g r w1\<rparr>))"

definition logged_iface ::
    "('w, 't, 's, 'q, 'a, 'i, 'e, 'n) iface_api
      \<Rightarrow> ('w \<times> ('i, 'a) iface_log, 't, 's, 'q, 'a, 'i, 'e, 'n) iface_api" where
  "logged_iface A =
     \<lparr>if_tokio = \<lparr>tk_now = log_cause (\<lambda>now w. [ReadClock now]) (tk_now (if_tokio A)),
        tk_interval_at = tk_interval_at (if_tokio A), tk_skip_missed = tk_skip_missed (if_tokio A),
        tk_poll_tick = (\<lambda>t (w, l). case tk_poll_tick (if_tokio A) t w of (r, t1, w1) \<Rightarrow> (r, t1, w1, l))\<rparr>,
      if_dns = if_dns A, if_addr = if_addr A, if_translate = if_translate A,
      if_mdns_v4 = if_mdns_v4 A, if_mdns_v6 = if_mdns_v6 A,
      if_random_u16 = log_cause (\<lambda>rid w. [Ticked rid]) (if_random_u16 A),
      if_peer_rng = log_cause (\<lambda>rnd w. [Drew rnd (if_listen_addrs A w)]) (if_peer_rng A),
      if_jitter = beside_log (if_jitter A),
      if_socket = (\<lambda>v6. beside_log (if_socket A v6)),
      if_udp_bind = (\<lambda>a. beside_log (if_udp_bind A a)),
      if_sock_op = (\<lambda>op s. beside_log (if_sock_op A op s)),
      sk_recv_from = (\<lambda>n s. log_cause (\<lambda>got w. case got of
          Ready (Inr (datagram, sender)) \<Rightarrow> [Received datagram sender] | _ \<Rightarrow> []) (sk_recv_from A n s)),
      sk_send_to = (\<lambda>p to s (w, l). case sk_send_to A p to s w of
          (Pending, w1) \<Rightarrow> (Pending, w1, l)
        | (Ready ok, w1) \<Rightarrow> (Ready ok, w1, l\<lparr>packets_tried := packets_tried l @ [(p, ok)]\<rparr>)),
      ch_poll_ready = (\<lambda>q. beside_log (ch_poll_ready A q)),
      ch_try_send = (\<lambda>d q (w, l). case ch_try_send A d q w of
          (Full, w1) \<Rightarrow> (Full, w1, l)
        | (Sent, w1) \<Rightarrow> (Sent, w1, l\<lparr>addresses_offered := addresses_offered l @ [(d, True)]\<rparr>)
        | (Disconnected, w1) \<Rightarrow> (Disconnected, w1, l\<lparr>addresses_offered := addresses_offered l @ [(d, False)]\<rparr>)),
      if_listen_addrs = (\<lambda>w. if_listen_addrs A (fst w))\<rparr>"

interpretation logged: observed_iface "logged_iface A" "\<lambda>w. packets_tried (snd w)"
    "\<lambda>w. addresses_offered (snd w)" "\<lambda>w. iface_causes (snd w)"
  for A :: "('w, 't, 's, 'q, 'a, 'i, 'e, 'n) iface_api"
  by unfold_locales
    (auto simp: logged_iface_def log_cause_def beside_log_def split: prod.splits poll.splits try_send_result.splits)

lemma due_logged [simp]:
  "due_packets (logged_iface A) s cs = due_packets A s cs"
  "due_addresses (logged_iface A) s cs = due_addresses A s cs"
proof -
  have logs: "if_addr (logged_iface A) = if_addr A" "if_translate (logged_iface A) = if_translate A"
    "if_dns (logged_iface A) = if_dns A"
    by (simp_all add: logged_iface_def)
  show "due_packets (logged_iface A) s cs = due_packets A s cs"
    "due_addresses (logged_iface A) s cs = due_addresses A s cs"
    by (rule due_cong; (unfold answers_due_def discoveries_due_def packet_of_def logs)?; rule refl)+
qed


text \<open>The behaviour holds the other end of the channel: no offer finds it gone.\<close>

definition receiver_alive :: "('w, 't, 's, 'q, 'a, 'i, 'e, 'n) iface_api \<Rightarrow> bool" where
  "receiver_alive A \<longleftrightarrow> (\<forall>d q w. fst (ch_try_send A d q w) \<noteq> Disconnected)"

lemma iface_pass_pending:
  assumes "receiver_alive A" "iface_pass A st = Ret flow"
  shows "\<not> flow_over flow"
proof (rule iface_pass_phases [OF assms(2), where R = "\<lambda>ends a b. \<not> ends"])
  fix a
  show "\<not> flow_over (phase_send A a)"
    by (auto simp: phase_send_def Let_def split: prod.splits list.splits poll.splits)
  have "ch_try_send A d q w \<noteq> (Disconnected, w')" for d q w w'
    using assms(1) unfolding receiver_alive_def by (metis fst_conv)
  then show "\<not> flow_over (phase_discovered A a)"
    by (auto simp: phase_discovered_def Let_def split: prod.splits list.splits bool.splits try_send_result.splits)
next
  fix a f
  assume "phase_receive A a = Ret f"
  then show "\<not> flow_over f"
    by (auto simp: phase_receive_def Let_def
        split: prod.splits poll.splits sum.splits option.splits mdns_packet.splits)
qed simp_all

lemma iface_poll_pending:
  assumes "receiver_alive A" "iface_poll A st = Some (Ret (p, st'))"
  shows "p = Pending"
  using assms(2)
proof (induction rule: iface_poll_induct)
  case (return st p st')
  from iface_pass_pending [OF assms(1) return] show ?case by (cases p) simp_all
qed

text \<open>
  A poll leaves the probing state of an interface as it is or ends the probing for good. The
  interval between queries takes no third value: it is the probe interval the task started with
  or the query interval, and it is not stretched in between.
\<close>

theorem probe_has_two_speeds:
  assumes "iface_poll (logged_iface A) (s, w, log) = Some (Ret (p, s', w', log'))"
  shows "(iface_probe s' = iface_probe s \<or> iface_probe s' = Finished (query_interval s)) \<and>
    query_interval s' = query_interval s \<and> iface_config s' = iface_config s"
  using logged.poll_grows [OF assms] unfolding logged.grows_def logged.grows_by_def settings_def by auto

text \<open>
  Runs to see both on, with one packet and one address that wait and nothing that comes in: in the
  first all is taken, in the second the socket fails and the behaviour is gone.
\<close>

definition no_log :: "('i, 'a) iface_log" where
  "no_log = \<lparr>packets_tried = [], addresses_offered = [], iface_causes = []\<rparr>"

lemma sample_iface_run:
  "iface_poll (logged_iface sample_iface_api) (sample_iface [[1]] [(2, [Tcp 1], 5)], (0, []), no_log)
     = Some (Ret (Pending, sample_iface [] [], (0, []),
         no_log\<lparr>packets_tried := [([1], True)], addresses_offered := [((2, [Tcp 1], 5), True)]\<rparr>))"
proof -
  let ?A = "logged_iface sample_iface_api" and ?log = "no_log\<lparr>packets_tried := [([1], True)]\<rparr>"
  note defs = iface_pass_def phase_timeout_def timer_poll_next_def phase_send_def poll_write_def
    phase_discovered_def phase_receive_def poll_read_def beside_log_def log_cause_def logged_iface_def
    sample_iface_api_def sample_iface_def no_log_def
  have 1: "iface_pass ?A (sample_iface [[1]] [(2, [Tcp 1], 5)], (0, []), no_log)
      = Ret (Continue (sample_iface [] [(2, [Tcp 1], 5)], (0, []), ?log))"
    by (simp add: defs)
  have 2: "iface_pass ?A (sample_iface [] [(2, [Tcp 1], 5)], (0, []), ?log)
      = Ret (Continue (sample_iface [] [], (0, []), ?log\<lparr>addresses_offered := [((2, [Tcp 1], 5), True)]\<rparr>))"
    by (simp add: defs)
  have 3: "iface_pass ?A (sample_iface [] [], (0, []), ?log\<lparr>addresses_offered := [((2, [Tcp 1], 5), True)]\<rparr>)
      = Ret (Return Pending (sample_iface [] [], (0, []), ?log\<lparr>addresses_offered := [((2, [Tcp 1], 5), True)]\<rparr>))"
    by (simp add: defs)
  show ?thesis
    by (subst iface_poll.simps, simp add: 1, subst iface_poll.simps, simp add: 2,
        subst iface_poll.simps, simp add: 3)
qed



lemma probe_has_two_speeds_witness:
  "iface_probe (sample_iface [] []) = iface_probe (sample_iface [[1]] [(2, [Tcp 1], 5)]) \<or>
   iface_probe (sample_iface [] []) = Finished (query_interval (sample_iface [[1]] [(2, [Tcp 1], 5)]))"
  using probe_has_two_speeds [OF sample_iface_run] by blast

section \<open>The probing interval\<close>

text \<open>The probing state after a number of ticks without a response.\<close>

fun probe_after :: "nat \<Rightarrow> duration \<Rightarrow> probe_state \<Rightarrow> probe_state outcome" where
  "probe_after 0 qi p = Ret p"
| "probe_after (Suc n) qi p = and_then (next_probe qi p) (probe_after n qi)"

lemma probe_after_finished [simp]: "probe_after n qi (Finished d) = Ret (Finished d)"
  by (induction n) (simp_all add: next_probe_def)

lemma next_probe_probing:
  "next_probe qi (Probing d) =
     (if dur_max < d * 2 then Panic else if qi \<le> d * 2 then Ret (Finished qi) else Ret (Probing d))"
  by (simp add: next_probe_def dur_mul_def dur_checked_mul_def)

text \<open>
  C40: The ticks of an interface that gets no response do not stretch the probing interval: if
  twice the probe interval reaches the query interval, the first tick ends the probing, else no
  number of ticks does and the interface queries at the probe interval for ever. Doubling an
  interval that does not fit a \<open>Duration\<close> panics.
\<close>

theorem probing_interval_never_grows:
  "probe_after (Suc n) qi (Probing d) =
     (if dur_max < d * 2 then Panic else if qi \<le> d * 2 then Ret (Finished qi) else Ret (Probing d))"
proof (induction n)
  case 0
  then show ?case by (simp add: next_probe_probing)
next
  case (Suc n)
  then show ?case
    by (subst probe_after.simps) (simp add: next_probe_probing del: probe_after.simps(2))
qed

section \<open>Datagrams of others\<close>

text \<open>
  A datagram that is no DNS message, or a query for another service, ends the poll: the task
  answers \<open>Pending\<close> although the socket was ready, so it is not registered to be woken by the
  datagrams still waiting there.
\<close>

theorem foreign_datagram_ends_poll:
  assumes "phase_timeout A st = Ret st1" "phase_send A st1 = Fall st2"
    and "phase_discovered A st2 = Fall (s, w)"
    and "poll_read A (recv_socket s) (recv_buffer s) w = (Ready (Inr (len, sender)), buf, w1)"
    and "new_from_bytes (if_dns A) (if_addr A) (take len buf) sender
           (cfg_service_name_fqdn (iface_config s)) (cfg_meta_query_service_fqdn (iface_config s))
         \<in> insert (Inr None) (range Inl)"
  shows "iface_poll A st = Some (Ret (Pending, s\<lparr>recv_buffer := buf\<rparr>, w1))"
proof -
  have "iface_pass A st = Ret (Return Pending (s\<lparr>recv_buffer := buf\<rparr>, w1))"
    using assms by (auto simp: iface_pass_def phase_receive_def)
  then show ?thesis by (subst iface_poll.simps) simp
qed

lemma short_message: "wire_parse [1, 2] = Inl ()"
proof -
  have "read_many read_u16 6 [1, 2] = None" by (simp add: numeral_eq_Suc)
  then show ?thesis by (simp add: wire_parse_def read_message_def)
qed

lemma replicate_eval: "replicate 4 x = [x, x, x, x]"
  by (simp add: numeral_eq_Suc)

text \<open>Two datagrams wait and the first is no message: the second stays unread.\<close>

lemma foreign_datagram_ends_poll_witness:
  "iface_poll sample_iface_api
     (sample_iface [] [], 0, [([1, 2], \<lparr>ip = V4 9, port = 5353\<rparr>), ([3, 4], \<lparr>ip = V4 9, port = 5353\<rparr>)])
   = Some (Ret (Pending, (sample_iface [] [])\<lparr>recv_buffer := [1, 2, 0, 0]\<rparr>, 0,
       [([3, 4], \<lparr>ip = V4 9, port = 5353\<rparr>)]))"
proof -
  let ?from = "\<lparr>ip = V4 9, port = 5353\<rparr>"
  let ?s = "sample_iface [] []" and ?w = "(0, [([1, 2], ?from), ([3, 4], ?from)])"
  have "phase_timeout sample_iface_api (?s, ?w) = Ret (?s, ?w)"
    by (simp add: phase_timeout_def timer_poll_next_def sample_iface_api_def sample_iface_def)
  moreover have "phase_send sample_iface_api (?s, ?w) = Fall (?s, ?w)"
    "phase_discovered sample_iface_api (?s, ?w) = Fall (?s, ?w)"
    by (simp_all add: phase_send_def phase_discovered_def sample_iface_api_def sample_iface_def)
  moreover have "poll_read sample_iface_api (recv_socket ?s) (recv_buffer ?s) ?w
      = (Ready (Inr (2, ?from)), [1, 2, 0, 0], 0, [([3, 4], ?from)])"
    by (simp add: poll_read_def sample_iface_api_def sample_iface_def replicate_eval)
  moreover have "new_from_bytes (if_dns sample_iface_api) (if_addr sample_iface_api) (take 2 [1, 2, 0, 0]) ?from
      (cfg_service_name_fqdn (iface_config ?s)) (cfg_meta_query_service_fqdn (iface_config ?s))
      \<in> insert (Inr None) (range Inl)"
    by (simp add: new_from_bytes_def sample_iface_api_def wire_lib_def short_message)
  ultimately show ?thesis by (rule foreign_datagram_ends_poll)
qed

section \<open>Polls return\<close>

text \<open>
  The outside keeps an interface busy only finitely often: a \<open>budget\<close> of ticks and datagrams
  that no call raises. A channel that was ready takes an item.
\<close>

definition finite_input ::
    "('w, 't, 's, 'q, 'a, 'i, 'e, 'n) iface_api \<Rightarrow> ('w \<Rightarrow> nat) \<Rightarrow> bool" where
  "finite_input A budget \<longleftrightarrow>
     (\<forall>t w. budget (snd (snd (tk_poll_tick (if_tokio A) t w))) +
        (if fst (tk_poll_tick (if_tokio A) t w) then 1 else 0) \<le> budget w) \<and>
     (\<forall>n s w. budget (snd (sk_recv_from A n s w)) +
        (if \<exists>x. fst (sk_recv_from A n s w) = Ready (Inr x) then 1 else 0) \<le> budget w) \<and>
     (\<forall>w. budget (snd (tk_now (if_tokio A) w)) \<le> budget w) \<and>
     (\<forall>w. budget (snd (if_random_u16 A w)) \<le> budget w) \<and>
     (\<forall>w. budget (snd (if_peer_rng A w)) \<le> budget w) \<and>
     (\<forall>p to s w. budget (snd (sk_send_to A p to s w)) \<le> budget w) \<and>
     (\<forall>q w. budget (snd (ch_poll_ready A q w)) \<le> budget w) \<and>
     (\<forall>d q w. budget (snd (ch_try_send A d q w)) \<le> budget w) \<and>
     (\<forall>d q w. fst (ch_poll_ready A q w) \<longrightarrow>
        fst (ch_try_send A d q (snd (ch_poll_ready A q w))) \<noteq> Full)"

lemma finite_inputD:
  assumes "finite_input A budget"
  shows "tk_poll_tick (if_tokio A) t w = (r, t', w') \<Longrightarrow> budget w' + (if r then 1 else 0) \<le> budget w"
    and "sk_recv_from A n s w = (Ready (Inr x), w') \<Longrightarrow> budget w' < budget w"
    and "tk_now (if_tokio A) w = (now, w') \<Longrightarrow> budget w' \<le> budget w"
    and "if_random_u16 A w = (u, w') \<Longrightarrow> budget w' \<le> budget w"
    and "if_peer_rng A w = (g, w') \<Longrightarrow> budget w' \<le> budget w"
    and "sk_send_to A p to s w = (sr, w') \<Longrightarrow> budget w' \<le> budget w"
    and "ch_poll_ready A q w = (cr, w') \<Longrightarrow> budget w' \<le> budget w"
    and "ch_try_send A d q w = (tr, w') \<Longrightarrow> budget w' \<le> budget w"
    and "ch_poll_ready A q w = (True, w') \<Longrightarrow> ch_try_send A d q w' \<noteq> (Full, w'')"
proof -
  from assms have tick: "\<And>t w. budget (snd (snd (tk_poll_tick (if_tokio A) t w))) +
        (if fst (tk_poll_tick (if_tokio A) t w) then 1 else 0) \<le> budget w"
    and recv: "\<And>n s w. budget (snd (sk_recv_from A n s w)) +
        (if \<exists>x. fst (sk_recv_from A n s w) = Ready (Inr x) then 1 else 0) \<le> budget w"
    and full: "\<And>d q w. fst (ch_poll_ready A q w) \<Longrightarrow>
        fst (ch_try_send A d q (snd (ch_poll_ready A q w))) \<noteq> Full"
    unfolding finite_input_def by blast+
  show "tk_poll_tick (if_tokio A) t w = (r, t', w') \<Longrightarrow> budget w' + (if r then 1 else 0) \<le> budget w"
    using tick [of t w] by simp
  show "sk_recv_from A n s w = (Ready (Inr x), w') \<Longrightarrow> budget w' < budget w"
    using recv [of n s w] by simp
  show "ch_poll_ready A q w = (True, w') \<Longrightarrow> ch_try_send A d q w' \<noteq> (Full, w'')"
    using full [of q w d] by auto
  show "tk_now (if_tokio A) w = (now, w') \<Longrightarrow> budget w' \<le> budget w"
    "if_random_u16 A w = (u, w') \<Longrightarrow> budget w' \<le> budget w"
    "if_peer_rng A w = (g, w') \<Longrightarrow> budget w' \<le> budget w"
    "sk_send_to A p to s w = (sr, w') \<Longrightarrow> budget w' \<le> budget w"
    "ch_poll_ready A q w = (cr, w') \<Longrightarrow> budget w' \<le> budget w"
    "ch_try_send A d q w = (tr, w') \<Longrightarrow> budget w' \<le> budget w"
    using assms unfolding finite_input_def by (metis snd_conv)+
qed

text \<open>What gets smaller with every pass that goes round again.\<close>

definition work :: "('w \<Rightarrow> nat) \<Rightarrow> ('t, 's, 'q, 'a, 'i) iface \<times> 'w \<Rightarrow> nat \<times> nat" where
  "work budget st =
     (budget (snd st), length (send_buffer (fst st)) + length (iface_discovered (fst st)))"

abbreviation smaller :: "((nat \<times> nat) \<times> nat \<times> nat) set" where
  "smaller \<equiv> less_than <*lex*> less_than"

lemma work_less:
  "budget w' \<le> budget w \<Longrightarrow> length (send_buffer s') + length (iface_discovered s')
       < length (send_buffer s) + length (iface_discovered s)
   \<Longrightarrow> (work budget (s', w'), work budget (s, w)) \<in> smaller"
  by (auto simp: work_def)

definition no_more :: "nat \<times> nat \<Rightarrow> nat \<times> nat \<Rightarrow> bool" where
  "no_more a b \<longleftrightarrow> a = b \<or> (a, b) \<in> smaller"

lemma work_not_more:
  "budget w' \<le> budget w \<Longrightarrow> send_buffer s' = send_buffer s \<Longrightarrow> iface_discovered s' = iface_discovered s
   \<Longrightarrow> no_more (work budget (s', w')) (work budget (s, w))"
  by (auto simp: work_def no_more_def)

lemma smaller_trans: "(a, b) \<in> smaller \<Longrightarrow> no_more b c \<Longrightarrow> (a, c) \<in> smaller"
  by (cases a; cases b; cases c) (auto simp: no_more_def)

lemma no_more_trans: "no_more a b \<Longrightarrow> no_more b c \<Longrightarrow> no_more a c"
  by (cases a; cases b; cases c) (auto simp: no_more_def)

lemma smaller_no_more: "(a, b) \<in> smaller \<Longrightarrow> no_more a b"
  by (simp add: no_more_def)

lemma work_budget: "budget (snd st') < budget (snd st) \<Longrightarrow> (work budget st', work budget st) \<in> smaller"
  by (simp add: work_def)

lemma work_timer:
  "finite_input A budget \<Longrightarrow> iface_reset_timer A (s, w) = Ret st' \<Longrightarrow>
     budget (snd st') \<le> budget w \<and> (\<exists>t. fst st' = s\<lparr>iface_timeout := t\<rparr>)"
  by (auto simp: iface_reset_timer_def timer_interval_def Let_def finite_inputD split: prod.splits)

lemma work_timeout:
  assumes "finite_input A budget" "phase_timeout A st = Ret st'"
  shows "no_more (work budget st') (work budget st)"
proof -
  obtain s w where st: "st = (s, w)" by force
  obtain ready t w1 where tick: "tk_poll_tick (if_tokio A) (iface_timeout s) w = (ready, t, w1)"
    by (metis prod.exhaust)
  note w1 = finite_inputD(1) [OF assms(1) tick]
  show ?thesis
  proof (cases ready)
    case False
    with assms(2) tick w1 show ?thesis
      by (auto simp: st phase_timeout_def timer_poll_next_def intro!: work_not_more)
  next
    case True
    obtain rid w2 where rid: "if_random_u16 A w1 = (rid, w2)" by force
    from assms(2) True tick rid obtain s2 where
      "iface_reset_timer A (s2, w2) = Ret st'"
      by (auto simp: st phase_timeout_def timer_poll_next_def)
    from work_timer [OF assms(1) this] finite_inputD(4) [OF assms(1) rid] w1 True
    have "budget (snd st') < budget w" by simp
    then show ?thesis by (simp add: st work_budget smaller_no_more)
  qed
qed

lemma work_send:
  assumes "finite_input A budget"
  shows "phase_send A st = Continue st' \<Longrightarrow> (work budget st', work budget st) \<in> smaller"
    and "phase_send A st = Fall st' \<Longrightarrow> no_more (work budget st') (work budget st)"
  by (auto simp: phase_send_def poll_write_def Let_def finite_inputD(6) [OF assms]
      split: prod.splits list.splits poll.splits intro!: work_less work_not_more)

lemma work_discovered:
  assumes "finite_input A budget"
  shows "phase_discovered A st = Continue st' \<Longrightarrow> (work budget st', work budget st) \<in> smaller"
    and "phase_discovered A st = Fall st' \<Longrightarrow> no_more (work budget st') (work budget st)"
proof -
  obtain s w where st: "st = (s, w)" by force
  obtain ready w1 where ready: "ch_poll_ready A (query_response_sender s) w = (ready, w1)" by force
  note w1 = finite_inputD(7) [OF assms ready]
  show "phase_discovered A st = Fall st' \<Longrightarrow> no_more (work budget st') (work budget st)"
    using ready w1 by (auto simp: st phase_discovered_def Let_def
        split: bool.splits list.splits prod.splits try_send_result.splits intro!: work_not_more)
  assume cont: "phase_discovered A st = Continue st'"
  with ready obtain d rest where ready1: "ready" and d: "iface_discovered s = d # rest"
    by (auto simp: st phase_discovered_def split: bool.splits list.splits)
  obtain r w2 where send: "ch_try_send A d (query_response_sender s) w1 = (r, w2)" by force
  with finite_inputD(9) [OF assms, of "query_response_sender s" w w1 d w2] ready ready1
  have "r \<noteq> Full" by auto
  with cont ready ready1 d send have "st' = (s\<lparr>iface_discovered := rest\<rparr>, w2)"
    by (cases r) (simp_all add: st phase_discovered_def Let_def)
  moreover have "budget w2 \<le> budget w" using finite_inputD(8) [OF assms send] w1 by simp
  ultimately show "(work budget st', work budget st) \<in> smaller"
    using d by (auto simp: st intro!: work_less)
qed

lemma work_receive:
  assumes "finite_input A budget" "phase_receive A st = Ret (Continue st')"
  shows "(work budget st', work budget st) \<in> smaller"
proof -
  obtain s w where st: "st = (s, w)" by force
  obtain r w1 where recv: "sk_recv_from A (length (recv_buffer s)) (recv_socket s) w = (r, w1)" by force
  with assms(2) obtain x where r: "r = Ready (Inr x)"
    by (auto simp: st phase_receive_def poll_read_def split: poll.splits sum.splits)
  have less: "budget w1 < budget w" using finite_inputD(2) [OF assms(1)] recv r by blast
  have "budget (snd st') \<le> budget w1"
    using assms(2) recv r
    by (cases x)
      (auto simp: st phase_receive_def poll_read_def answer_query_def take_response_def answer_discovery_def
        Let_def split: sum.splits option.splits mdns_packet.splits if_splits prod.splits
        dest!: work_timer [OF assms(1)] finite_inputD(3,5) [OF assms(1)])
  with less show ?thesis by (intro work_budget) (simp add: st)
qed

lemma iface_pass_Continue:
  assumes "iface_pass A st = Ret (Continue st')"
  shows "\<exists>st1. phase_timeout A st = Ret st1 \<and>
    (phase_send A st1 = Continue st' \<or>
     (\<exists>st2. phase_send A st1 = Fall st2 \<and>
        (phase_discovered A st2 = Continue st' \<or>
         (\<exists>st3. phase_discovered A st2 = Fall st3 \<and> phase_receive A st3 = Ret (Continue st')))))"
proof -
  obtain st1 where st1: "phase_timeout A st = Ret st1"
    using assms by (auto simp: iface_pass_def)
  with assms show ?thesis
    by (cases "phase_send A st1"; cases "phase_discovered A (flow_state (phase_send A st1))")
      (auto simp: iface_pass_def)
qed

lemma work_pass:
  assumes "finite_input A budget" "iface_pass A st = Ret (Continue st')"
  shows "(work budget st', work budget st) \<in> smaller"
proof -
  note fin = assms(1)
  from iface_pass_Continue [OF assms(2)] obtain st1 where st1: "phase_timeout A st = Ret st1"
    and rest: "phase_send A st1 = Continue st' \<or>
     (\<exists>st2. phase_send A st1 = Fall st2 \<and>
        (phase_discovered A st2 = Continue st' \<or>
         (\<exists>st3. phase_discovered A st2 = Fall st3 \<and> phase_receive A st3 = Ret (Continue st'))))"
    by blast
  from rest have "(work budget st', work budget st1) \<in> smaller"
  proof (elim disjE exE conjE)
    assume "phase_send A st1 = Continue st'"
    then show ?thesis by (rule work_send [OF fin])
  next
    fix st2 assume 2: "phase_send A st1 = Fall st2" "phase_discovered A st2 = Continue st'"
    from work_send(2) [OF fin 2(1)] work_discovered(1) [OF fin 2(2)] show ?thesis
      by (rule smaller_trans [rotated])
  next
    fix st2 st3
    assume 3: "phase_send A st1 = Fall st2" "phase_discovered A st2 = Fall st3"
      "phase_receive A st3 = Ret (Continue st')"
    show ?thesis
      by (rule smaller_trans [OF work_receive [OF fin 3(3)]
          no_more_trans [OF work_discovered(2) [OF fin 3(2)] work_send(2) [OF fin 3(1)]]])
  qed
  with work_timeout [OF fin st1] show ?thesis by (rule smaller_trans [rotated])
qed

lemma wf_smaller: "wf smaller"
  by (simp add: wf_lex_prod)

lemma iface_poll_ends:
  assumes "finite_input A budget"
  shows "\<exists>r. iface_poll A st = Some r"
proof (induction st rule: wf_induct_rule [OF wf_inv_image [OF wf_smaller, of "work budget"]])
  case (1 st)
  show ?case
  proof (cases "iface_pass A st")
    case Panic
    then show ?thesis by (subst iface_poll.simps) simp
  next
    case (Ret flow)
    show ?thesis
    proof (cases flow)
      case (Continue st1)
      with Ret work_pass [OF assms] have "(st1, st) \<in> inv_image smaller (work budget)" by simp
      with 1 Ret Continue show ?thesis by (subst iface_poll.simps) simp
    qed (use Ret in \<open>subst iface_poll.simps, simp\<close>)+
  qed
qed

section \<open>Polls do not panic\<close>

text \<open>
  What an interface needs: names the encoder takes, and intervals that are not zero, can be
  doubled and are at most \<open>d\<close>.
\<close>

definition iface_ok :: "duration \<Rightarrow> ('t, 's, 'q, 'a, 'i) iface \<Rightarrow> bool" where
  "iface_ok d s \<longleftrightarrow>
     service_ok (cfg_service_name (iface_config s)) \<and>
     service_ok (cfg_meta_query_service (iface_config s)) \<and>
     0 < query_interval s \<and> query_interval s \<le> d \<and>
     0 < interval (iface_probe s) \<and> interval (iface_probe s) \<le> d \<and>
     (case iface_probe s of Probing p \<Rightarrow> p * 2 \<le> dur_max | Finished _ \<Rightarrow> True)"

text \<open>
  What it needs of the outside: random peer names of the stated alphabet, and a clock that is
  not within \<open>d\<close> or the longest TTL of the end of time.
\<close>

definition outside_ok :: "('w, 't, 's, 'q, 'a, 'i, 'e, 'n) iface_api \<Rightarrow> duration \<Rightarrow> bool" where
  "outside_ok A d \<longleftrightarrow>
     period_checked (if_tokio A) \<and> (\<forall>w. rng_ok (fst (if_peer_rng A w))) \<and>
     (\<forall>w. fst (tk_now (if_tokio A) w) + max d ((2 ^ 32 - 1) * nanos_per_sec) \<le> inst_max)"

lemma iface_ok_update [simp]:
  "iface_ok d (s\<lparr>iface_timeout := t\<rparr>) = iface_ok d s"
  "iface_ok d (s\<lparr>send_buffer := ps\<rparr>) = iface_ok d s"
  "iface_ok d (s\<lparr>iface_discovered := ds\<rparr>) = iface_ok d s"
  "iface_ok d (s\<lparr>recv_buffer := buf\<rparr>) = iface_ok d s"
  "iface_ok d (s\<lparr>send_buffer := ps, iface_probe := p\<rparr>) = iface_ok d (s\<lparr>iface_probe := p\<rparr>)"
  by (simp_all add: iface_ok_def)

lemma reset_timer_ok:
  assumes "outside_ok A d" "iface_ok d s"
  shows "\<exists>t w'. iface_reset_timer A (s, w) = Ret (s\<lparr>iface_timeout := t\<rparr>, w')"
proof -
  have "fst (tk_now (if_tokio A) w) + interval (iface_probe s) \<le> inst_max"
    using assms by (simp add: outside_ok_def iface_ok_def) (meson add_le_mono le_refl le_trans max.cobounded1)
  with timer_interval_returns [of "if_tokio A" "interval (iface_probe s)" w] assms
  show ?thesis by (auto simp: iface_reset_timer_def outside_ok_def iface_ok_def)
qed

lemma iface_ok_finished: "iface_ok d s \<Longrightarrow> iface_ok d (s\<lparr>iface_probe := Finished (query_interval s)\<rparr>)"
  by (simp add: iface_ok_def)

lemma iface_ok_next_probe:
  assumes "iface_ok d s"
  shows "\<exists>p. next_probe (query_interval s) (iface_probe s) = Ret p \<and> iface_ok d (s\<lparr>iface_probe := p\<rparr>)"
proof (cases "iface_probe s")
  case (Probing p)
  with assms show ?thesis by (auto simp: next_probe_probing iface_ok_def)
next
  case (Finished p)
  with assms show ?thesis by (auto simp: next_probe_def iface_ok_def)
qed

lemma phase_timeout_ok:
  assumes "outside_ok A d" "iface_ok d (fst st)"
  shows "\<exists>st'. phase_timeout A st = Ret st' \<and> iface_ok d (fst st')"
proof -
  obtain s w where st: "st = (s, w)" by force
  obtain ready t w1 where tick: "tk_poll_tick (if_tokio A) (iface_timeout s) w = (ready, t, w1)"
    by (metis prod.exhaust)
  obtain rid w2 where rid: "if_random_u16 A w1 = (rid, w2)" by force
  have ok: "iface_ok d s" using assms(2) st by simp
  then obtain packet where packet: "build_query rid (cfg_service_name (iface_config s)) = Ret packet"
    by (auto simp: iface_ok_def build_query_wire)
  obtain p where p: "next_probe (query_interval s) (iface_probe s) = Ret p" "iface_ok d (s\<lparr>iface_probe := p\<rparr>)"
    using iface_ok_next_probe [OF ok] by blast
  let ?s = "s\<lparr>iface_timeout := t, send_buffer := send_buffer s @ [packet], iface_probe := p\<rparr>"
  have "?s = s\<lparr>iface_probe := p\<rparr>\<lparr>iface_timeout := t\<rparr>\<lparr>send_buffer := send_buffer s @ [packet]\<rparr>" by simp
  then have "iface_ok d ?s" by (simp only: iface_ok_update p(2))
  with reset_timer_ok [OF assms(1) this, of w2] tick rid packet p ok show ?thesis
    by (cases ready) (auto simp: st phase_timeout_def timer_poll_next_def)
qed

lemma phase_send_ok: "iface_ok d (fst st) \<Longrightarrow> iface_ok d (fst (flow_state (phase_send A st)))"
  by (auto simp: phase_send_def Let_def split: prod.splits list.splits poll.splits)

lemma phase_discovered_ok: "iface_ok d (fst st) \<Longrightarrow> iface_ok d (fst (flow_state (phase_discovered A st)))"
  by (auto simp: phase_discovered_def Let_def split: prod.splits list.splits bool.splits try_send_result.splits)

lemma take_response_ok:
  assumes "outside_ok A d" "iface_ok d s"
  shows "\<exists>st'. take_response A response (s, w) = Ret st' \<and> iface_ok d (fst st')"
proof -
  obtain now w1 where now: "tk_now (if_tokio A) w = (now, w1)" by force
  have bound: "now + (2 ^ 32 - 1) * nanos_per_sec \<le> inst_max"
    using assms(1) now unfolding outside_ok_def by (metis fst_conv le_trans max.cobounded2 nat_add_left_cancel_le)
  obtain ds where ds: "extract_discovered (if_addr A) (if_translate A) response now (iface_peer_id s) = Ret ds"
    by (simp add: extract_discovered_def discover_peers_list [OF bound])
  let ?s = "s\<lparr>iface_discovered := iface_discovered s @ ds, iface_probe := Finished (query_interval s)\<rparr>"
  have "?s = s\<lparr>iface_probe := Finished (query_interval s)\<rparr>\<lparr>iface_discovered := iface_discovered s @ ds\<rparr>" by simp
  then have "iface_ok d ?s" by (simp only: iface_ok_update iface_ok_finished [OF assms(2)])
  with reset_timer_ok [OF assms(1) this, of w1] now ds assms(2) show ?thesis
    by (auto simp: take_response_def Let_def)
qed

lemma answers_ok:
  assumes "outside_ok A d" "iface_ok d s"
  shows "\<exists>st'. answer_query A query (s, w) = Ret st' \<and> iface_ok d (fst st')"
    and "\<exists>st'. answer_discovery disc (s, w) = Ret st' \<and> iface_ok d (fst st')"
proof -
  obtain rnd w1 where rnd: "if_peer_rng A w = (rnd, w1)" by (metis prod.exhaust)
  then have "rng_ok rnd" using assms(1) unfolding outside_ok_def by (metis fst_conv)
  moreover have "service_ok (cfg_service_name (iface_config s))" using assms(2) by (simp add: iface_ok_def)
  ultimately obtain packets where
    "build_query_response (ma_show (if_addr A)) (pid_base58 (if_addr A)) rnd (mq_query_id query)
       (iface_peer_id s) (if_listen_addrs A w1) (iface_ttl s) (cfg_service_name (iface_config s)) = Ret packets"
    by (simp add: build_query_response_wire)
  with rnd assms(2) show "\<exists>st'. answer_query A query (s, w) = Ret st' \<and> iface_ok d (fst st')"
    by (auto simp: answer_query_def)
  have "\<exists>packet. build_service_discovery_response (sd_query_id disc) (iface_ttl s)
      (cfg_service_name (iface_config s)) (cfg_meta_query_service (iface_config s)) = Ret packet"
    using assms(2) by (simp add: iface_ok_def build_service_discovery_wire)
  with assms(2) show "\<exists>st'. answer_discovery disc (s, w) = Ret st' \<and> iface_ok d (fst st')"
    by (auto simp: answer_discovery_def)
qed

lemma phase_receive_ok:
  assumes "outside_ok A d" "iface_ok d (fst st)"
  shows "\<exists>flow. phase_receive A st = Ret flow \<and> iface_ok d (fst (flow_state flow))"
proof -
  obtain s w where st: "st = (s, w)" by force
  obtain res buf w1 where read: "poll_read A (recv_socket s) (recv_buffer s) w = (res, buf, w1)"
    by (metis prod.exhaust)
  let ?s = "s\<lparr>recv_buffer := buf\<rparr>"
  have ok: "iface_ok d ?s" using assms(2) by (simp add: st)
  show ?thesis
  proof (cases "\<exists>len sender. res = Ready (Inr (len, sender))")
    case False
    then have "phase_receive A st = Ret (Return Pending (?s, w1))"
      using read by (auto simp: st phase_receive_def Let_def split: poll.splits sum.splits)
    with ok show ?thesis by simp
  next
    case True
    then obtain len sender where res: "res = Ready (Inr (len, sender))" by blast
    define msg where "msg = new_from_bytes (if_dns A) (if_addr A) (take len buf) sender
      (cfg_service_name_fqdn (iface_config s)) (cfg_meta_query_service_fqdn (iface_config s))"
    have eq: "phase_receive A st = (case msg of
        Inr (Some (Query query)) \<Rightarrow> and_then (answer_query A query (?s, w1)) (\<lambda>st1. Ret (Continue st1))
      | Inr (Some (Response response)) \<Rightarrow> and_then (take_response A response (?s, w1)) (\<lambda>st1. Ret (Continue st1))
      | Inr (Some (ServiceDiscovery disc)) \<Rightarrow> and_then (answer_discovery disc (?s, w1)) (\<lambda>st1. Ret (Continue st1))
      | Inl err \<Rightarrow> Ret (Return Pending (?s, w1))
      | Inr None \<Rightarrow> Ret (Return Pending (?s, w1)))"
      using read by (simp add: st phase_receive_def res msg_def Let_def)
    consider "\<exists>e. msg = Inl e" | "msg = Inr None" | (q) query where "msg = Inr (Some (Query query))"
      | (r) response where "msg = Inr (Some (Response response))"
      | (d) disc where "msg = Inr (Some (ServiceDiscovery disc))"
      by (metis mdns_packet.exhaust obj_sumE option.exhaust)
    then show ?thesis
    proof cases
      case q
      with eq answers_ok(1) [OF assms(1) ok, of query w1] show ?thesis by auto
    next
      case r
      with eq take_response_ok [OF assms(1) ok, of response w1] show ?thesis by auto
    next
      case d
      with eq answers_ok(2) [OF assms(1) ok, of disc w1] show ?thesis by auto
    qed (use eq ok in auto)
  qed
qed

lemma iface_pass_ok:
  assumes "outside_ok A d" "iface_ok d (fst st)"
  shows "\<exists>flow. iface_pass A st = Ret flow \<and> iface_ok d (fst (flow_state flow))"
proof -
  obtain st1 where st1: "phase_timeout A st = Ret st1" "iface_ok d (fst st1)"
    using phase_timeout_ok [OF assms] by blast
  have ok2: "iface_ok d (fst (flow_state (phase_send A st1)))" by (rule phase_send_ok [OF st1(2)])
  have ok3: "iface_ok d (fst (flow_state (phase_discovered A (flow_state (phase_send A st1)))))"
    by (rule phase_discovered_ok [OF ok2])
  from phase_receive_ok [OF assms(1) ok3] st1 ok2 ok3 show ?thesis
    by (auto simp: iface_pass_def split: flow.splits)
qed

lemma iface_poll_no_panic:
  assumes "outside_ok A d" "iface_ok d (fst st)" "iface_poll A st = Some r"
  shows "r \<noteq> Panic"
proof -
  have "api = A \<longrightarrow> iface_ok d (fst st) \<longrightarrow> r \<noteq> Panic" if "iface_poll api st = Some r" for api r st
  proof (rule iface_poll.raw_induct [where P = "\<lambda>api st r. api = A \<longrightarrow> iface_ok d (fst st) \<longrightarrow> r \<noteq> Panic",
        OF _ that], intro impI)
    fix f api st r
    assume IH: "\<And>api st r. f api st = Some r \<Longrightarrow> api = A \<longrightarrow> iface_ok d (fst st) \<longrightarrow> r \<noteq> Panic"
      and body: "(case iface_pass api st of
          Panic \<Rightarrow> Some Panic
        | Ret (Continue st1) \<Rightarrow> f api st1
        | Ret (Return p st1) \<Rightarrow> Some (Ret (p, st1))
        | Ret (Fall st1) \<Rightarrow> Some (Ret (Pending, st1))) = Some r"
      and eqs: "api = A" and ok: "iface_ok d (fst st)"
    obtain flow where flow: "iface_pass A st = Ret flow" "iface_ok d (fst (flow_state flow))"
      using iface_pass_ok [OF assms(1) ok] by blast
    show "r \<noteq> Panic"
    proof (cases flow)
      case (Continue st1)
      with flow body eqs have "f A st1 = Some r" by simp
      with IH Continue flow show ?thesis by auto
    qed (use flow body eqs in auto)
  qed
  with assms show ?thesis by blast
qed

text \<open>
  C7: With names the encoder takes, intervals that are not zero and can be doubled, and an outside
  that gives finitely many ticks and datagrams, every poll of an interface task comes back: the
  loop ends and nothing in it panics, whatever bytes the datagrams hold.
\<close>

theorem iface_poll_returns:
  assumes "finite_input A budget" "outside_ok A d" "iface_ok d s"
  shows "\<exists>p s' w'. iface_poll A (s, w) = Some (Ret (p, s', w'))"
proof -
  obtain r where r: "iface_poll A (s, w) = Some r"
    using iface_poll_ends [OF assms(1)] by blast
  with iface_poll_no_panic [OF assms(2), of "(s, w)" r] assms(3) show ?thesis
    by (cases r) auto
qed

lemma sample_iface_finite: "finite_input sample_iface_api (\<lambda>w. fst w + length (snd w))"
  by (auto simp: finite_input_def sample_iface_api_def split: list.splits)

lemma sample_iface_outside: "outside_ok sample_iface_api 3000000000"
  by (simp add: outside_ok_def sample_iface_api_def period_checked_def sample_rng_ok inst_max_def nanos_per_sec_def)

lemma sample_iface_ok: "iface_ok 3000000000 (sample_iface ps ds)"
  by (simp add: iface_ok_def sample_iface_def config_service_name_ok dur_max_def nanos_per_sec_def)

lemma iface_poll_returns_witness:
  "\<exists>p s' w'. iface_poll sample_iface_api (sample_iface [] [], 2, [([1, 2, 3], \<lparr>ip = V4 9, port = 5353\<rparr>)])
     = Some (Ret (p, s', w'))"
  by (rule iface_poll_returns [OF sample_iface_finite sample_iface_outside sample_iface_ok])

end
