(* ===== verification/MdnsBehaviour.thy ===== *)
theory MdnsBehaviour
  imports MdnsIface
begin

text \<open>
  \<open>src/behaviours/mdns_bhv.rs\<close>: the mDNS behaviour. It starts and stops the tasks of the
  network interfaces and keeps the list of discovered nodes with their expirations. The
  interface watcher, the tasks, the channel from the interface tasks and the shared listen
  addresses belong to the outside: their operations are the fields of an \<open>mdns_api\<close> over a
  state of the world \<open>'w\<close>.
\<close>

section \<open>The outside\<close>

text \<open>\<open>IfEvent\<close> with its address, and an error of the watcher.\<close>

datatype if_event = IfUp ip_addr | IfDown ip_addr | IfError

text \<open>
  \<open>mb_watch\<close> and \<open>mb_recv\<close> are the streams' \<open>poll_next\<close>, \<open>None\<close> being \<open>Pending\<close> or the end
  of the stream.
\<close>

record ('w, 't, 's, 'q, 'a, 'i, 'e, 'n, 'h, 'x) mdns_api =
  mb_iface :: "('w, 't, 's, 'q, 'a, 'i, 'e, 'n) iface_api"
  mb_watcher_new :: "'w \<Rightarrow> bool \<times> 'w"
  mb_watch :: "'w \<Rightarrow> if_event option \<times> 'w"
  mb_recv :: "'w \<Rightarrow> ('i \<times> 'a \<times> instant) option \<times> 'w"
  mb_spawn :: "('t, 's, 'q, 'a, 'i) iface \<Rightarrow> 'w \<Rightarrow> 'h \<times> 'w"
  mb_abort :: "'h \<Rightarrow> 'w \<Rightarrow> 'w"
  mb_listen :: "'x \<Rightarrow> 'w \<Rightarrow> 'w"

section \<open>State\<close>

datatype ('i, 'a) mdns_event =
    MdnsDiscovered "('i \<times> 'a) list"
  | MdnsExpired "('i \<times> 'a) list"

record ('t, 'q, 'a, 'i, 'h) mdns_bhv =
  mdns_cfg :: mdns_config
  if_tasks :: "ip_addr \<rightharpoonup> 'h"
  mdns_sender :: 'q
  discovered_nodes :: "('i \<times> 'a \<times> instant) list"
  closest_expiration :: "'t option"
  mdns_local_peer_id :: 'i
  mdns_queue :: "('i, 'a) mdns_event list"

text \<open>\<open>tx\<close> is the sending half of the new channel; \<open>None\<close> is the error of the watcher.\<close>

definition mdns_new ::
    "('w, 't, 's, 'q, 'a, 'i, 'e, 'n, 'h, 'x) mdns_api \<Rightarrow> mdns_config \<Rightarrow> 'i \<Rightarrow> 'q \<Rightarrow> 'w
      \<Rightarrow> (('t, 'q, 'a, 'i, 'h) mdns_bhv option \<times> 'w) outcome" where
  "mdns_new A config local_peer_id tx w =
     (if \<not> cfg_query_interval config > cfg_probe_interval config then Panic
      else (case mb_watcher_new A w of
              (False, w1) \<Rightarrow> Ret (None, w1)
            | (True, w1) \<Rightarrow>
                Ret (Some \<lparr>mdns_cfg = config, if_tasks = Map.empty, mdns_sender = tx,
                           discovered_nodes = [], closest_expiration = None,
                           mdns_local_peer_id = local_peer_id, mdns_queue = []\<rparr>, w1)))"

definition discovered_peers :: "('t, 'q, 'a, 'i, 'h) mdns_bhv \<Rightarrow> 'i list" where
  "discovered_peers b = map (\<lambda>(p, _, _). p) (discovered_nodes b)"

definition pending_outbound :: "'i option \<Rightarrow> ('t, 'q, 'a, 'i, 'h) mdns_bhv \<Rightarrow> 'a list" where
  "pending_outbound maybe_peer b =
     (case maybe_peer of
        None \<Rightarrow> []
      | Some wanted \<Rightarrow>
          map (\<lambda>(_, addr, _). addr) (filter (\<lambda>(peer, _, _). peer = wanted) (discovered_nodes b)))"

definition mdns_on_swarm_event ::
    "('w, 't, 's, 'q, 'a, 'i, 'e, 'n, 'h, 'x) mdns_api \<Rightarrow> 'x \<Rightarrow> ('t, 'q, 'a, 'i, 'h) mdns_bhv \<times> 'w
      \<Rightarrow> ('t, 'q, 'a, 'i, 'h) mdns_bhv \<times> 'w" where
  "mdns_on_swarm_event A event st = (fst st, mb_listen A event (snd st))"

section \<open>Interfaces\<close>

definition handle_if_event ::
    "('w, 't, 's, 'q, 'a, 'i, 'e, 'n, 'h, 'x) mdns_api \<Rightarrow> if_event
      \<Rightarrow> ('t, 'q, 'a, 'i, 'h) mdns_bhv \<times> 'w \<Rightarrow> (('t, 'q, 'a, 'i, 'h) mdns_bhv \<times> 'w) outcome" where
  "handle_if_event A event st =
     (case st of (b, w) \<Rightarrow>
        (case event of
           IfUp addr \<Rightarrow>
             if ip_is_loopback addr then Ret (b, w)
             else if is_ipv4 addr \<and> cfg_ipv6 (mdns_cfg b) \<or> is_ipv6 addr \<and> \<not> cfg_ipv6 (mdns_cfg b)
             then Ret (b, w)
             else if if_tasks b addr = None
             then and_then (iface_new (mb_iface A) addr (mdns_cfg b) (mdns_local_peer_id b) (mdns_sender b) w)
                    (\<lambda>(made, w1).
                       case made of
                         Some iface_state \<Rightarrow>
                           (let (handle, w2) = mb_spawn A iface_state w1
                            in Ret (b\<lparr>if_tasks := (if_tasks b)(addr \<mapsto> handle)\<rparr>, w2))
                       | None \<Rightarrow> Ret (b, w1))
             else Ret (b, w)
         | IfDown addr \<Rightarrow>
             (case if_tasks b addr of
                Some handle \<Rightarrow>
                  Ret (b\<lparr>if_tasks := (if_tasks b)(addr := None)\<rparr>, mb_abort A handle w)
              | None \<Rightarrow> Ret (b, w))
         | IfError \<Rightarrow> Ret (b, w)))"

partial_function (option) watch_interfaces ::
    "('w, 't, 's, 'q, 'a, 'i, 'e, 'n, 'h, 'x) mdns_api \<Rightarrow> ('t, 'q, 'a, 'i, 'h) mdns_bhv \<times> 'w
      \<Rightarrow> (('t, 'q, 'a, 'i, 'h) mdns_bhv \<times> 'w) outcome option" where
  "watch_interfaces A st =
     (case mb_watch A (snd st) of
        (None, w1) \<Rightarrow> Some (Ret (fst st, w1))
      | (Some event, w1) \<Rightarrow>
          (case handle_if_event A event (fst st, w1) of
             Panic \<Rightarrow> Some Panic
           | Ret st1 \<Rightarrow> watch_interfaces A st1))"

section \<open>Discovered nodes\<close>

text \<open>\<open>iter_mut().find(..)\<close> and the update of the entry found.\<close>

fun extend_expiry ::
    "'i \<Rightarrow> 'a \<Rightarrow> instant \<Rightarrow> ('i \<times> 'a \<times> instant) list \<Rightarrow> ('i \<times> 'a \<times> instant) list option" where
  "extend_expiry peer addr expiration [] = None"
| "extend_expiry peer addr expiration ((p, a, cur_expires) # rest) =
     (if p = peer \<and> a = addr then Some ((p, a, max cur_expires expiration) # rest)
      else map_option (\<lambda>rest1. (p, a, cur_expires) # rest1) (extend_expiry peer addr expiration rest))"

definition note_discovered ::
    "'i \<times> 'a \<times> instant \<Rightarrow> ('i \<times> 'a \<times> instant) list \<times> ('i \<times> 'a) list
      \<Rightarrow> ('i \<times> 'a \<times> instant) list \<times> ('i \<times> 'a) list" where
  "note_discovered d st =
     (case (d, st) of ((peer, addr, expiration), nodes, discovered) \<Rightarrow>
        (case extend_expiry peer addr expiration nodes of
           Some nodes1 \<Rightarrow> (nodes1, discovered)
         | None \<Rightarrow> (nodes @ [(peer, addr, expiration)], discovered @ [(peer, addr)])))"

partial_function (option) receive_discovered ::
    "('w, 't, 's, 'q, 'a, 'i, 'e, 'n, 'h, 'x) mdns_api
      \<Rightarrow> ('i \<times> 'a \<times> instant) list \<times> ('i \<times> 'a) list \<Rightarrow> 'w
      \<Rightarrow> ((('i \<times> 'a \<times> instant) list \<times> ('i \<times> 'a) list) \<times> 'w) option" where
  "receive_discovered A st w =
     (case mb_recv A w of
        (None, w1) \<Rightarrow> Some (st, w1)
      | (Some d, w1) \<Rightarrow> receive_discovered A (note_discovered d st) w1)"

text \<open>\<open>retain\<close>, with the two variables its closure updates.\<close>

fun retain_live ::
    "instant \<Rightarrow> instant option \<Rightarrow> ('i \<times> 'a) list \<Rightarrow> ('i \<times> 'a \<times> instant) list
      \<Rightarrow> ('i \<times> 'a \<times> instant) list \<times> instant option \<times> ('i \<times> 'a) list" where
  "retain_live now closest expired [] = ([], closest, expired)"
| "retain_live now closest expired ((peer, addr, expiration) # rest) =
     (if expiration \<le> now
      then retain_live now closest (expired @ [(peer, addr)]) rest
      else (let closest1 = Some (min (case closest of Some c \<Rightarrow> c | None \<Rightarrow> expiration) expiration);
                (kept, c, x) = retain_live now closest1 expired rest
            in ((peer, addr, expiration) # kept, c, x)))"

definition push_unless_empty ::
    "('d list \<Rightarrow> 'v) \<Rightarrow> 'd list \<Rightarrow> 'v list \<Rightarrow> 'v list" where
  "push_unless_empty ev ds queue = (if ds \<noteq> [] then queue @ [ev ds] else queue)"

section \<open>Polling\<close>

definition arm_timer ::
    "('w, 't, 's, 'q, 'a, 'i, 'e, 'n, 'h, 'x) mdns_api \<Rightarrow> instant option
      \<Rightarrow> ('t, 'q, 'a, 'i, 'h) mdns_bhv \<times> 'w \<Rightarrow> (('t, 'q, 'a, 'i, 'h) mdns_bhv \<times> 'w) outcome" where
  "arm_timer A closest st =
     (case closest of
        Some c \<Rightarrow>
          and_then (timer_at (if_tokio (mb_iface A)) c) (\<lambda>timer.
            let (_, timer1, w) = timer_poll_next (if_tokio (mb_iface A)) timer (snd st)
            in Ret ((fst st)\<lparr>closest_expiration := Some timer1\<rparr>, w))
      | None \<Rightarrow> Ret st)"

definition hand_over ::
    "('t, 'q, 'a, 'i, 'h) mdns_bhv \<times> 'w \<Rightarrow> ('i, 'a) mdns_event poll \<times> ('t, 'q, 'a, 'i, 'h) mdns_bhv \<times> 'w" where
  "hand_over st =
     (case mdns_queue (fst st) of
        e # es \<Rightarrow> (Ready e, (fst st)\<lparr>mdns_queue := es\<rparr>, snd st)
      | [] \<Rightarrow> (Pending, st))"

text \<open>What follows the two loops.\<close>

definition finish_poll ::
    "('w, 't, 's, 'q, 'a, 'i, 'e, 'n, 'h, 'x) mdns_api \<Rightarrow> ('i \<times> 'a) list
      \<Rightarrow> ('t, 'q, 'a, 'i, 'h) mdns_bhv \<times> 'w
      \<Rightarrow> (('i, 'a) mdns_event poll \<times> ('t, 'q, 'a, 'i, 'h) mdns_bhv \<times> 'w) outcome" where
  "finish_poll A discovered st =
     (case st of (b, w) \<Rightarrow>
        (let b1 = b\<lparr>mdns_queue := push_unless_empty MdnsDiscovered discovered (mdns_queue b)\<rparr>;
             (now, w1) = tk_now (if_tokio (mb_iface A)) w;
             (kept, closest, expired) = retain_live now None [] (discovered_nodes b1);
             b2 = b1\<lparr>discovered_nodes := kept\<rparr>;
             b3 = b2\<lparr>mdns_queue := push_unless_empty MdnsExpired expired (mdns_queue b2)\<rparr>
         in and_then (arm_timer A closest (b3, w1)) (\<lambda>st1. Ret (hand_over st1))))"

definition mdns_poll ::
    "('w, 't, 's, 'q, 'a, 'i, 'e, 'n, 'h, 'x) mdns_api \<Rightarrow> ('t, 'q, 'a, 'i, 'h) mdns_bhv \<times> 'w
      \<Rightarrow> (('i, 'a) mdns_event poll \<times> ('t, 'q, 'a, 'i, 'h) mdns_bhv \<times> 'w) outcome option" where
  "mdns_poll A st =
     Option.bind (watch_interfaces A st) (\<lambda>watched.
       case watched of
         Panic \<Rightarrow> Some Panic
       | Ret (b, w) \<Rightarrow>
           Option.bind (receive_discovered A (discovered_nodes b, []) w) (\<lambda>((nodes, discovered), w1).
             Some (finish_poll A discovered (b\<lparr>discovered_nodes := nodes\<rparr>, w1))))"

section \<open>The list is a map\<close>

definition node_keys :: "('i \<times> 'a \<times> instant) list \<Rightarrow> ('i \<times> 'a) list" where
  "node_keys ns = map (\<lambda>(p, a, _). (p, a)) ns"

definition node_map :: "('i \<times> 'a \<times> instant) list \<Rightarrow> 'i \<times> 'a \<rightharpoonup> instant" where
  "node_map ns = map_of (map (\<lambda>(p, a, e). ((p, a), e)) ns)"

lemma node_simps [simp]:
  "node_keys [] = []"
  "node_keys ((p, a, e) # ns) = (p, a) # node_keys ns"
  "node_map [] = Map.empty"
  "node_map ((p, a, e) # ns) = (node_map ns)((p, a) \<mapsto> e)"
  "node_keys (ns @ ms) = node_keys ns @ node_keys ms"
  by (simp_all add: node_keys_def node_map_def)

lemma node_map_keys: "dom (node_map ns) = set (node_keys ns)"
  unfolding node_map_def dom_map_of_conv_image_fst node_keys_def by force

text \<open>A later answer for a known node: the later expiration counts.\<close>

definition learn :: "'i \<times> 'a \<times> instant \<Rightarrow> ('i \<times> 'a \<rightharpoonup> instant) \<Rightarrow> ('i \<times> 'a \<rightharpoonup> instant)" where
  "learn d m = (case d of (p, a, e) \<Rightarrow>
     m((p, a) \<mapsto> (case m (p, a) of None \<Rightarrow> e | Some c \<Rightarrow> max c e)))"

lemma extend_expiry_None: "extend_expiry p a e ns = None \<longleftrightarrow> (p, a) \<notin> set (node_keys ns)"
  by (induction p a e ns rule: extend_expiry.induct) auto

lemma extend_expiry_Some:
  "extend_expiry p a e ns = Some ns' \<Longrightarrow> distinct (node_keys ns) \<Longrightarrow>
     node_keys ns' = node_keys ns \<and> node_map ns' = learn (p, a, e) (node_map ns)"
proof (induction p a e ns arbitrary: ns' rule: extend_expiry.induct)
  case (2 peer addr expiration p a cur rest)
  show ?case
  proof (cases "p = peer \<and> a = addr")
    case True
    with 2 show ?thesis by (auto simp: learn_def)
  next
    case False
    with 2 obtain r where "extend_expiry peer addr expiration rest = Some r" "ns' = (p, a, cur) # r"
      by auto
    with False 2 show ?thesis by (auto simp: learn_def fun_upd_twist)
  qed
qed simp

lemma node_map_snoc: "node_map (ns @ [(p, a, e)]) = (if (p, a) \<in> set (node_keys ns) then node_map ns
    else (node_map ns)((p, a) \<mapsto> e))"
  by (induction ns) (auto simp: fun_eq_iff)

lemma note_discovered_learns:
  assumes "distinct (node_keys ns)"
  shows "node_map (fst (note_discovered (p, a, e) (ns, ds))) = learn (p, a, e) (node_map ns)"
    and "distinct (node_keys (fst (note_discovered (p, a, e) (ns, ds))))"
    and "snd (note_discovered (p, a, e) (ns, ds)) = ds @ (if (p, a) \<in> set (node_keys ns) then [] else [(p, a)])"
    and "set (node_keys (fst (note_discovered (p, a, e) (ns, ds)))) = insert (p, a) (set (node_keys ns))"
proof -
  consider (new) "extend_expiry p a e ns = None" | (old) ns' where "extend_expiry p a e ns = Some ns'" by auto
  then have all: "node_map (fst (note_discovered (p, a, e) (ns, ds))) = learn (p, a, e) (node_map ns) \<and>
    distinct (node_keys (fst (note_discovered (p, a, e) (ns, ds)))) \<and>
    snd (note_discovered (p, a, e) (ns, ds)) = ds @ (if (p, a) \<in> set (node_keys ns) then [] else [(p, a)]) \<and>
    set (node_keys (fst (note_discovered (p, a, e) (ns, ds)))) = insert (p, a) (set (node_keys ns))"
  proof cases
    case new
    then have fresh: "(p, a) \<notin> set (node_keys ns)" by (simp add: extend_expiry_None)
    then have "node_map ns (p, a) = None" using node_map_keys [of ns] by blast
    with new fresh assms show ?thesis
      by (simp add: note_discovered_def node_map_snoc learn_def)
  next
    case old
    then have "(p, a) \<in> set (node_keys ns)" using extend_expiry_None [of p a e ns] by auto
    with old assms extend_expiry_Some [OF old assms] show ?thesis
      by (auto simp: note_discovered_def)
  qed
  then show "node_map (fst (note_discovered (p, a, e) (ns, ds))) = learn (p, a, e) (node_map ns)"
    "distinct (node_keys (fst (note_discovered (p, a, e) (ns, ds))))"
    "snd (note_discovered (p, a, e) (ns, ds)) = ds @ (if (p, a) \<in> set (node_keys ns) then [] else [(p, a)])"
    "set (node_keys (fst (note_discovered (p, a, e) (ns, ds)))) = insert (p, a) (set (node_keys ns))"
    by blast+
qed

definition is_live :: "instant \<Rightarrow> 'i \<times> 'a \<times> instant \<Rightarrow> bool" where
  "is_live now d \<longleftrightarrow> now < snd (snd d)"

definition closer :: "instant option \<Rightarrow> instant list \<Rightarrow> instant option" where
  "closer c es = fold (\<lambda>e c. Some (case c of None \<Rightarrow> e | Some x \<Rightarrow> min x e)) es c"

lemma retain_live_filter:
  "retain_live now c x ns =
     (filter (is_live now) ns, closer c (map (snd \<circ> snd) (filter (is_live now) ns)),
      x @ node_keys (filter (\<lambda>d. \<not> is_live now d) ns))"
  by (induction now c x ns rule: retain_live.induct)
    (auto simp: is_live_def closer_def Let_def split: option.splits prod.splits)

lemma closer_Min: "closer c es = (if c = None \<and> es = [] then None
    else Some (Min (set es \<union> set_option c)))"
proof (induction es arbitrary: c)
  case Nil
  then show ?case by (cases c) (simp_all add: closer_def)
next
  case (Cons e es)
  have "closer c (e # es) = closer (Some (case c of None \<Rightarrow> e | Some x \<Rightarrow> min x e)) es"
    by (simp add: closer_def)
  also have "\<dots> = Some (Min (set (e # es) \<union> set_option c))"
  proof (cases "es = []")
    case True
    then show ?thesis by (cases c) (simp_all add: closer_def min.commute)
  next
    case False
    then show ?thesis by (cases c) (simp_all add: Cons.IH insert_commute ac_simps)
  qed
  finally show ?case by simp
qed

text \<open>
  C36: The closure that \<open>retain\<close> runs over the nodes, with its two captured variables, computes in
  one pass the nodes whose expiration is still to come, in order, the earliest of those
  expirations, if there is one, and the pairs of peer and address that have expired.
\<close>

theorem retention_is_filter_and_minimum:
  "retain_live now None [] ns =
     (filter (\<lambda>(p, a, e). now < e) ns,
      if filter (\<lambda>(p, a, e). now < e) ns = [] then None else Some (Min {e. now < e \<and> (\<exists>p a. (p, a, e) \<in> set ns)}),
      map (\<lambda>(p, a, e). (p, a)) (filter (\<lambda>(p, a, e). e \<le> now) ns))"
proof -
  have live: "is_live now = (\<lambda>(p, a, e). now < e)" and dead: "(\<lambda>d. \<not> is_live now d) = (\<lambda>(p, a, e). e \<le> now)"
    by (auto simp: fun_eq_iff is_live_def)
  have "set (map (snd \<circ> snd) (filter (\<lambda>(p, a, e). now < e) ns)) = {e. now < e \<and> (\<exists>p a. (p, a, e) \<in> set ns)}"
    by force
  then show ?thesis
    by (simp add: retain_live_filter closer_Min live dead node_keys_def case_prod_unfold not_less)
qed

section \<open>What the node is told\<close>

text \<open>
  What a reader of the events believes: \<open>None\<close> when an event makes no sense to it, a node
  discovered that it knows or one expired that it does not.
\<close>

fun believes :: "('i \<times> 'a) set \<Rightarrow> ('i, 'a) mdns_event list \<Rightarrow> ('i \<times> 'a) set option" where
  "believes K [] = Some K"
| "believes K (MdnsDiscovered ds # es) =
     (if distinct ds \<and> set ds \<inter> K = {} then believes (K \<union> set ds) es else None)"
| "believes K (MdnsExpired ds # es) =
     (if distinct ds \<and> set ds \<subseteq> K then believes (K - set ds) es else None)"

lemma believes_append: "believes K (es @ fs) = Option.bind (believes K es) (\<lambda>K'. believes K' fs)"
  by (induction K es rule: believes.induct) simp_all

text \<open>The nodes and the new ones among them while the channel is read.\<close>

definition receiving ::
    "('i \<times> 'a) set \<Rightarrow> ('i \<times> 'a \<times> instant) list \<times> ('i \<times> 'a) list \<Rightarrow> bool" where
  "receiving K st \<longleftrightarrow> distinct (node_keys (fst st)) \<and> distinct (snd st) \<and> set (snd st) \<inter> K = {} \<and>
     set (node_keys (fst st)) = K \<union> set (snd st)"

lemma note_discovered_receiving: "receiving K st \<Longrightarrow> receiving K (note_discovered d st)"
proof -
  assume rec: "receiving K st"
  obtain ns ds where st: "st = (ns, ds)" by force
  obtain p a e where d: "d = (p, a, e)" by (metis prod.exhaust)
  from rec have "distinct (node_keys ns)" by (simp add: receiving_def st)
  from note_discovered_learns [OF this, of p a e ds] rec show ?thesis
    by (auto simp: receiving_def st d)
qed

lemma receive_discovered_induct [consumes 1, case_names stop step]:
  assumes "receive_discovered A st w = Some (st', w')"
    and "\<And>st w w'. mb_recv A w = (None, w') \<Longrightarrow> Q st w st w'"
    and "\<And>st w d w1 st' w'. mb_recv A w = (Some d, w1) \<Longrightarrow> Q (note_discovered d st) w1 st' w' \<Longrightarrow> Q st w st' w'"
  shows "Q st w st' w'"
proof -
  have "api = A \<longrightarrow> Q st w (fst r) (snd r)" if "receive_discovered api st w = Some r" for api st w r
  proof (rule receive_discovered.raw_induct [where P = "\<lambda>api st w r. api = A \<longrightarrow> Q st w (fst r) (snd r)",
        OF _ that], intro impI)
    fix f api st w r
    assume IH: "\<And>api st w r. f api st w = Some r \<Longrightarrow> api = A \<longrightarrow> Q st w (fst r) (snd r)"
      and body: "(case mb_recv api w of (None, w1) \<Rightarrow> Some (st, w1)
        | (Some d, w1) \<Rightarrow> f api (note_discovered d st) w1) = Some r"
      and api: "api = A"
    show "Q st w (fst r) (snd r)"
    proof (cases "mb_recv A w")
      case (Pair o1 w1)
      show ?thesis
      proof (cases o1)
        case None
        with Pair body api have "r = (st, w1)" by simp
        with Pair None assms(2) show ?thesis by simp
      next
        case (Some d)
        with Pair body api have "f A (note_discovered d st) w1 = Some r" by simp
        with IH have "Q (note_discovered d st) w1 (fst r) (snd r)" by blast
        with Pair Some assms(3) show ?thesis by blast
      qed
    qed
  qed
  from this [OF assms(1)] show ?thesis by simp
qed

lemma receive_discovered_receiving:
  "receive_discovered A st w = Some (st', w') \<Longrightarrow> receiving K st \<Longrightarrow> receiving K st'"
  by (induction rule: receive_discovered_induct) (auto intro: note_discovered_receiving)

text \<open>Between polls the queue explains the list to a reader who believes \<open>K\<close>.\<close>

definition consistent :: "('i \<times> 'a) set \<Rightarrow> ('t, 'q, 'a, 'i, 'h) mdns_bhv \<Rightarrow> bool" where
  "consistent K b \<longleftrightarrow> distinct (node_keys (discovered_nodes b)) \<and>
     believes K (mdns_queue b) = Some (set (node_keys (discovered_nodes b)))"

lemma handle_if_event_frame:
  "handle_if_event A event (b, w) = Ret (b', w') \<Longrightarrow>
     discovered_nodes b' = discovered_nodes b \<and> mdns_queue b' = mdns_queue b \<and> mdns_cfg b' = mdns_cfg b"
  by (auto simp: handle_if_event_def Let_def split_beta split: if_event.splits if_splits option.splits)

lemma watch_interfaces_induct [consumes 1, case_names stop step]:
  assumes "watch_interfaces A st = Some (Ret st')"
    and "\<And>b w w'. mb_watch A w = (None, w') \<Longrightarrow> Q (b, w) (b, w')"
    and "\<And>b w ev w1 st1 st'. mb_watch A w = (Some ev, w1) \<Longrightarrow> handle_if_event A ev (b, w1) = Ret st1 \<Longrightarrow>
      Q st1 st' \<Longrightarrow> Q (b, w) st'"
  shows "Q st st'"
proof -
  have "api = A \<longrightarrow> (\<forall>st'. r = Ret st' \<longrightarrow> Q st st')" if "watch_interfaces api st = Some r" for api st r
  proof (rule watch_interfaces.raw_induct [where P = "\<lambda>api st r. api = A \<longrightarrow> (\<forall>st'. r = Ret st' \<longrightarrow> Q st st')",
        OF _ that], intro impI allI)
    fix f api st r st'
    assume IH: "\<And>api st r. f api st = Some r \<Longrightarrow> api = A \<longrightarrow> (\<forall>st'. r = Ret st' \<longrightarrow> Q st st')"
      and body: "(case mb_watch api (snd st) of (None, w1) \<Rightarrow> Some (Ret (fst st, w1))
        | (Some event, w1) \<Rightarrow> (case handle_if_event api event (fst st, w1) of Panic \<Rightarrow> Some Panic
            | Ret st1 \<Rightarrow> f api st1)) = Some r"
      and eqs: "api = A" "r = Ret st'"
    obtain b w where st: "st = (b, w)" by force
    obtain o1 w1 where w1: "mb_watch A w = (o1, w1)" by force
    show "Q st st'"
    proof (cases o1)
      case None
      with w1 body eqs have "st' = (b, w1)" by (simp add: st)
      with w1 None assms(2) show ?thesis by (simp add: st)
    next
      case (Some ev)
      with w1 body eqs obtain st1 where st1: "handle_if_event A ev (b, w1) = Ret st1" "f A st1 = Some (Ret st')"
        by (auto simp: st split: outcome.splits)
      with IH have "Q st1 st'" by blast
      with w1 Some st1 assms(3) show ?thesis by (simp add: st)
    qed
  qed
  with assms(1) show ?thesis by blast
qed

lemma watch_interfaces_frame:
  "watch_interfaces A st = Some (Ret st') \<Longrightarrow>
     discovered_nodes (fst st') = discovered_nodes (fst st) \<and> mdns_queue (fst st') = mdns_queue (fst st) \<and>
     mdns_cfg (fst st') = mdns_cfg (fst st)"
proof (induction rule: watch_interfaces_induct)
  case (step b w ev w1 st1 st')
  obtain b1 w2 where "st1 = (b1, w2)" by force
  with step handle_if_event_frame [of A ev b w1 b1 w2] show ?case by simp
qed simp

text \<open>What \<open>finish_poll\<close> leaves, before it hands an event over.\<close>

definition pruned ::
    "instant \<Rightarrow> ('i \<times> 'a) list \<Rightarrow> ('t, 'q, 'a, 'i, 'h) mdns_bhv
      \<Rightarrow> ('i \<times> 'a \<times> instant) list \<times> ('i, 'a) mdns_event list" where
  "pruned now discovered b =
     (filter (is_live now) (discovered_nodes b),
      push_unless_empty MdnsExpired (node_keys (filter (\<lambda>d. \<not> is_live now d) (discovered_nodes b)))
        (push_unless_empty MdnsDiscovered discovered (mdns_queue b)))"

lemma arm_timer_frame:
  "arm_timer A closest st = Ret st' \<Longrightarrow>
     discovered_nodes (fst st') = discovered_nodes (fst st) \<and> mdns_queue (fst st') = mdns_queue (fst st)"
  by (auto simp: arm_timer_def Let_def split_beta split: option.splits)

lemma finish_poll_result:
  assumes "finish_poll A discovered (b, w) = Ret (r, b', w')"
  shows "\<exists>q. pruned (fst (tk_now (if_tokio (mb_iface A)) w)) discovered b = (discovered_nodes b', q) \<and>
    (r = Pending \<and> q = [] \<and> mdns_queue b' = [] \<or> (\<exists>e. r = Ready e \<and> q = e # mdns_queue b'))"
proof -
  obtain now w1 where now: "tk_now (if_tokio (mb_iface A)) w = (now, w1)" by force
  let ?p = "pruned now discovered b"
  from assms obtain c st1 where arm: "arm_timer A c (b\<lparr>discovered_nodes := fst ?p, mdns_queue := snd ?p\<rparr>, w1) = Ret st1"
    and over: "hand_over st1 = (r, b', w')"
    by (auto simp: finish_poll_def now Let_def retain_live_filter pruned_def)
  from arm_timer_frame [OF arm] over now show ?thesis
    by (cases st1) (auto simp: hand_over_def prod_eq_iff split: list.splits)
qed

text \<open>One poll keeps the reader right.\<close>

fun told :: "('i, 'a) mdns_event poll \<Rightarrow> ('i, 'a) mdns_event list" where
  "told Pending = []"
| "told (Ready e) = [e]"

lemma believes_pruned:
  assumes "receiving K (nodes, discovered)" "believes B queue = Some K"
    and "pruned now discovered (b\<lparr>discovered_nodes := nodes, mdns_queue := queue\<rparr>) = (ns, q)"
  shows "distinct (node_keys ns) \<and> believes B q = Some (set (node_keys ns))"
proof -
  let ?dead = "node_keys (filter (\<lambda>d. \<not> is_live now d) nodes)"
  have ns: "ns = filter (is_live now) nodes"
    and q: "q = push_unless_empty MdnsExpired ?dead (push_unless_empty MdnsDiscovered discovered queue)"
    using assms(3) by (simp_all add: pruned_def)
  have dist: "distinct (node_keys nodes)" using assms(1) by (simp add: receiving_def)
  then have split: "distinct (node_keys ns)" "distinct ?dead" "set (node_keys ns) \<inter> set ?dead = {}"
    "set (node_keys nodes) = set (node_keys ns) \<union> set ?dead"
    unfolding ns by (induction nodes) (auto simp: node_keys_def)
  have "believes B (push_unless_empty MdnsDiscovered discovered queue) = Some (set (node_keys nodes))"
    using assms(1,2) by (auto simp: push_unless_empty_def believes_append receiving_def)
  with split show ?thesis
    unfolding q by (auto simp: push_unless_empty_def believes_append)
qed

lemma mdns_poll_parts:
  assumes "mdns_poll A (b, w) = Some (Ret (r, b', w'))"
  shows "\<exists>b1 w1 nodes discovered w2. watch_interfaces A (b, w) = Some (Ret (b1, w1)) \<and>
    receive_discovered A (discovered_nodes b1, []) w1 = Some ((nodes, discovered), w2) \<and>
    finish_poll A discovered (b1\<lparr>discovered_nodes := nodes\<rparr>, w2) = Ret (r, b', w')"
proof -
  from assms obtain watched where watched: "watch_interfaces A (b, w) = Some watched"
    by (auto simp: mdns_poll_def Option.bind_eq_Some_conv)
  show ?thesis
  proof (cases watched)
    case Panic
    with watched assms show ?thesis by (simp add: mdns_poll_def)
  next
    case (Ret st1)
    with watched assms show ?thesis
      by (cases st1) (auto simp: mdns_poll_def Option.bind_eq_Some_conv)
  qed
qed

lemma mdns_poll_consistent:
  assumes "mdns_poll A (b, w) = Some (Ret (r, b', w'))" "consistent B b"
  shows "distinct (node_keys (discovered_nodes b')) \<and>
    believes B (told r @ mdns_queue b') = Some (set (node_keys (discovered_nodes b')))"
proof -
  from mdns_poll_parts [OF assms(1)] obtain b1 w1 nodes discovered w2 where
    watch: "watch_interfaces A (b, w) = Some (Ret (b1, w1))"
    and recv: "receive_discovered A (discovered_nodes b1, []) w1 = Some ((nodes, discovered), w2)"
    and fin: "finish_poll A discovered (b1\<lparr>discovered_nodes := nodes\<rparr>, w2) = Ret (r, b', w')"
    by blast
  let ?K = "set (node_keys (discovered_nodes b))"
  have "receiving ?K (discovered_nodes b1, [])" "believes B (mdns_queue b1) = Some ?K"
    using watch_interfaces_frame [OF watch] assms(2) by (simp_all add: receiving_def consistent_def)
  with receive_discovered_receiving [OF recv] have rec: "receiving ?K (nodes, discovered)"
    and bel: "believes B (mdns_queue b1) = Some ?K" by blast+
  from finish_poll_result [OF fin] obtain now q where
    "pruned now discovered (b1\<lparr>discovered_nodes := nodes\<rparr>) = (discovered_nodes b', q)"
    and q: "q = told r @ mdns_queue b'"
    by auto
  then have "pruned now discovered (b1\<lparr>discovered_nodes := nodes, mdns_queue := mdns_queue b1\<rparr>) = (discovered_nodes b', q)"
    by simp
  from believes_pruned [OF rec bel this] q show ?thesis by simp
qed

text \<open>
  A run of the behaviour: \<open>Some x\<close> is a swarm event, \<open>None\<close> a poll. It gives the events that
  were handed over.
\<close>

fun mdns_run ::
    "('w, 't, 's, 'q, 'a, 'i, 'e, 'n, 'h, 'x) mdns_api \<Rightarrow> 'x option list
      \<Rightarrow> ('t, 'q, 'a, 'i, 'h) mdns_bhv \<times> 'w
      \<Rightarrow> (('i, 'a) mdns_event list \<times> ('t, 'q, 'a, 'i, 'h) mdns_bhv \<times> 'w) option" where
  "mdns_run A [] st = Some ([], st)"
| "mdns_run A (Some x # cs) st = mdns_run A cs (mdns_on_swarm_event A x st)"
| "mdns_run A (None # cs) st =
     (case mdns_poll A st of
        Some (Ret (r, st1)) \<Rightarrow> map_option (\<lambda>(es, st2). (told r @ es, st2)) (mdns_run A cs st1)
      | _ \<Rightarrow> None)"

lemma mdns_run_believes:
  "mdns_run A cs (b, w) = Some (es, b', w') \<Longrightarrow> consistent B b \<Longrightarrow>
     distinct (node_keys (discovered_nodes b')) \<and>
     believes B (es @ mdns_queue b') = Some (set (node_keys (discovered_nodes b')))"
proof (induction A cs "(b, w)" arbitrary: B b w es rule: mdns_run.induct)
  case (1 A)
  then show ?case by (simp add: consistent_def)
next
  case (2 A x cs)
  then show ?case by (simp add: mdns_on_swarm_event_def)
next
  case (3 A cs)
  from 3(2) obtain r b1 w1 es1 where poll: "mdns_poll A (b, w) = Some (Ret (r, b1, w1))"
    and run: "mdns_run A cs (b1, w1) = Some (es1, b', w')" and es: "es = told r @ es1"
    by (auto split: option.splits outcome.splits)
  from mdns_poll_consistent [OF poll 3(3)] obtain B1 where
    "believes B (told r) = Some B1" "consistent B1 b1"
    by (auto simp: consistent_def believes_append Option.bind_eq_Some_conv)
  with 3(1) [OF poll refl refl run] es show ?case
    by (auto simp: believes_append)
qed

text \<open>
  C9: To a reader that adds the nodes of every \<open>Discovered\<close> event and drops those of every
  \<open>Expired\<close> one, the events always make sense: a pair of peer and address is announced only
  when it is unknown and withdrawn only when it is known, never twice in one event. With the
  events still queued the reader knows exactly the discovered nodes, which hold no pair twice.
\<close>

theorem mdns_events_tell_the_nodes:
  assumes "mdns_new A config me tx w0 = Ret (Some b0, w1)" "mdns_run A cs (b0, w1) = Some (es, b, w)"
  shows "believes {} (es @ mdns_queue b) = Some (set (node_keys (discovered_nodes b))) \<and>
    distinct (node_keys (discovered_nodes b))"
proof -
  have "consistent {} b0"
    using assms(1) by (auto simp: mdns_new_def consistent_def split: if_splits prod.splits bool.splits)
  from mdns_run_believes [OF assms(2) this] show ?thesis by simp
qed

text \<open>The expirations a poll leaves: those learnt from the answers, without the past ones.\<close>

definition live_part :: "instant \<Rightarrow> ('i \<times> 'a \<rightharpoonup> instant) \<Rightarrow> ('i \<times> 'a \<rightharpoonup> instant)" where
  "live_part now m = (\<lambda>k. case m k of Some e \<Rightarrow> if now < e then Some e else None | None \<Rightarrow> None)"

lemma node_map_live:
  "distinct (node_keys ns) \<Longrightarrow> node_map (filter (is_live now) ns) = live_part now (node_map ns)"
proof (induction ns)
  case (Cons d ns)
  obtain p a e where d: "d = (p, a, e)" by (metis prod.exhaust)
  with Cons have "(p, a) \<notin> set (node_keys ns)" "node_map (filter (is_live now) ns) = live_part now (node_map ns)"
    by simp_all
  moreover from this(1) have "node_map ns (p, a) = None" using node_map_keys [of ns] by blast
  moreover have "is_live now (p, a, e) \<longleftrightarrow> now < e" by (simp add: is_live_def)
  ultimately show ?case
    by (auto simp: d live_part_def fun_eq_iff)
qed (simp add: live_part_def)

text \<open>The answers waiting in the channel.\<close>

inductive waiting ::
    "('w, 't, 's, 'q, 'a, 'i, 'e, 'n, 'h, 'x) mdns_api \<Rightarrow> 'w \<Rightarrow> ('i \<times> 'a \<times> instant) list \<Rightarrow> 'w \<Rightarrow> bool"
  for A where
  waiting_none: "mb_recv A w = (None, w') \<Longrightarrow> waiting A w [] w'"
| waiting_more: "mb_recv A w = (Some d, w1) \<Longrightarrow> waiting A w1 ds w' \<Longrightarrow> waiting A w (d # ds) w'"

inductive_cases waiting_NilE: "waiting A w [] w'"
inductive_cases waiting_ConsE: "waiting A w (d # ds) w'"

lemma receive_discovered_fold:
  "waiting A w ds w' \<Longrightarrow> receive_discovered A st w = Some (fold note_discovered ds st, w')"
proof (induction ds arbitrary: st w)
  case Nil
  then have "mb_recv A w = (None, w')" by (elim waiting_NilE)
  then show ?case by (subst receive_discovered.simps) simp
next
  case (Cons d ds)
  from Cons.prems obtain w1 where "mb_recv A w = (Some d, w1)" "waiting A w1 ds w'" by (elim waiting_ConsE)
  with Cons.IH show ?case by (subst receive_discovered.simps) simp
qed

lemma fold_note_learn:
  "distinct (node_keys (fst st)) \<Longrightarrow> distinct (node_keys (fst (fold note_discovered ds st))) \<and>
     node_map (fst (fold note_discovered ds st)) = fold learn ds (node_map (fst st))"
proof (induction ds arbitrary: st)
  case (Cons d ds)
  obtain ns xs where st: "st = (ns, xs)" by force
  obtain p a e where d: "d = (p, a, e)" by (metis prod.exhaust)
  have dist: "distinct (node_keys ns)" using Cons.prems st by simp
  from note_discovered_learns(1,2) [OF dist, of p a e xs] Cons.IH [of "note_discovered d st"]
  show ?case by (simp add: st d)
qed simp

lemma pending_outbound_map:
  "distinct (node_keys (discovered_nodes b)) \<Longrightarrow>
     set (pending_outbound (Some p) b) = {a. (p, a) \<in> dom (node_map (discovered_nodes b))}"
  unfolding node_map_keys by (force simp: pending_outbound_def node_keys_def)

text \<open>
  C10: A poll refines its specification on the map from pairs of peer and address to expirations.
  When the answers \<open>ds\<close> wait in the channel, the nodes known afterwards are those that were known
  or are in \<open>ds\<close>, each with the latest of its expirations, less those past at the time of the
  poll; and dialing a peer then tries exactly its addresses in that map.
\<close>

theorem mdns_poll_refines:
  assumes "distinct (node_keys (discovered_nodes b))" "watch_interfaces A (b, w) = Some (Ret (b1, w1))"
    and "waiting A w1 ds w2" "fst (tk_now (if_tokio (mb_iface A)) w2) = now"
    and "mdns_poll A (b, w) = Some (Ret (r, b', w'))"
  shows "node_map (discovered_nodes b') = live_part now (fold learn ds (node_map (discovered_nodes b))) \<and>
    set (pending_outbound (Some p) b')
      = {a. \<exists>e. fold learn ds (node_map (discovered_nodes b)) (p, a) = Some e \<and> now < e}"
proof -
  let ?st = "fold note_discovered ds (discovered_nodes b, [])"
  let ?m = "fold learn ds (node_map (discovered_nodes b))"
  have same: "discovered_nodes b1 = discovered_nodes b" using watch_interfaces_frame [OF assms(2)] by simp
  from mdns_poll_parts [OF assms(5)] assms(2) receive_discovered_fold [OF assms(3)] same
  have fin: "finish_poll A (snd ?st) (b1\<lparr>discovered_nodes := fst ?st\<rparr>, w2) = Ret (r, b', w')"
    by fastforce
  from finish_poll_result [OF fin] assms(4) have live: "discovered_nodes b' = filter (is_live now) (fst ?st)"
    by (auto simp: pruned_def)
  from fold_note_learn [of "(discovered_nodes b, [])" ds] assms(1)
  have dist: "distinct (node_keys (fst ?st))" and "node_map (fst ?st) = ?m" by simp_all
  then have map: "node_map (discovered_nodes b') = live_part now ?m"
    unfolding live by (simp add: node_map_live)
  have "distinct (node_keys (discovered_nodes b'))"
    using dist unfolding live node_keys_def by (rule distinct_map_filter)
  from pending_outbound_map [OF this] map show ?thesis
    by (auto simp: live_part_def dom_def split: option.splits if_splits)
qed

section \<open>The interface tasks\<close>

text \<open>
  The tasks that run, each with the address of its interface, as an observer of the world sees
  them: \<open>spawn\<close> starts one under a fresh handle, \<open>abort\<close> ends it and nothing else starts or ends
  one.
\<close>

definition observes_tasks ::
    "('w, 't, 's, 'q, 'a, 'i, 'e, 'n, 'h, 'x) mdns_api \<Rightarrow> ('w \<Rightarrow> (ip_addr \<times> 'h) set) \<Rightarrow> bool" where
  "observes_tasks A running \<longleftrightarrow>
     (\<forall>s w. fst (mb_spawn A s w) \<notin> snd ` running w \<and>
        running (snd (mb_spawn A s w)) = insert (iface_addr s, fst (mb_spawn A s w)) (running w)) \<and>
     (\<forall>h w. running (mb_abort A h w) = {t \<in> running w. snd t \<noteq> h}) \<and>
     (\<forall>w. running (snd (mb_watcher_new A w)) = running w \<and> running (snd (mb_watch A w)) = running w \<and>
        running (snd (mb_recv A w)) = running w) \<and>
     (\<forall>x w. running (mb_listen A x w) = running w) \<and>
     (\<forall>w t. running (snd (tk_now (if_tokio (mb_iface A)) w)) = running w \<and>
        running (snd (snd (tk_poll_tick (if_tokio (mb_iface A)) t w))) = running w) \<and>
     (\<forall>addr c i q w o1 w1. iface_new (mb_iface A) addr c i q w = Ret (o1, w1) \<longrightarrow> running w1 = running w)"

text \<open>A map and its graph, when no two keys have the same value.\<close>

definition one_each :: "('k \<times> 'v) set \<Rightarrow> ('k \<rightharpoonup> 'v) \<Rightarrow> bool" where
  "one_each W m \<longleftrightarrow> W = Map.graph m \<and> inj_on m (dom m)"

lemma one_each_add:
  assumes "one_each W m" "m k = None" "v \<notin> snd ` W"
  shows "one_each (insert (k, v) W) (m(k \<mapsto> v))"
proof -
  have "\<And>x. m x \<noteq> Some v" using assms(1,3) by (force simp: one_each_def Map.graph_def)
  moreover have "insert (k, v) (Map.graph m) = Map.graph (m(k \<mapsto> v))"
    using assms(2) by (auto simp: Map.graph_def split: if_splits)
  ultimately show ?thesis using assms(1,2) unfolding one_each_def inj_on_def by (metis domIff fun_upd_apply)
qed

lemma one_each_remove:
  assumes "one_each W m" "m k = Some v"
  shows "one_each {t \<in> W. snd t \<noteq> v} (m(k := None))"
proof -
  have inj: "inj_on m (dom m)" and W: "W = Map.graph m" using assms(1) by (simp_all add: one_each_def)
  have key: "m x = Some v \<longleftrightarrow> x = k" for x
  proof
    assume "m x = Some v"
    with assms(2) show "x = k" by (intro inj_onD [OF inj]) (simp_all add: domI)
  qed (simp add: assms(2))
  have "(a, c) \<in> {t \<in> W. snd t \<noteq> v} \<longleftrightarrow> (a, c) \<in> Map.graph (m(k := None))" for a c
    unfolding W by (cases "a = k") (auto simp: Map.graph_def assms(2) key)
  then have "{t \<in> W. snd t \<noteq> v} = Map.graph (m(k := None))" by (intro set_eqI) (metis prod.exhaust)
  moreover have "inj_on (m(k := None)) (dom m - {k})" using inj by (auto simp: inj_on_def)
  ultimately show ?thesis by (simp add: one_each_def)
qed

text \<open>The addresses that get a task.\<close>

definition wanted_if :: "mdns_config \<Rightarrow> ip_addr \<Rightarrow> bool" where
  "wanted_if c addr \<longleftrightarrow> \<not> ip_is_loopback addr \<and> is_ipv6 addr = cfg_ipv6 c"

definition tasks_match ::
    "('w \<Rightarrow> (ip_addr \<times> 'h) set) \<Rightarrow> ('t, 'q, 'a, 'i, 'h) mdns_bhv \<times> 'w \<Rightarrow> bool" where
  "tasks_match running st \<longleftrightarrow>
     one_each (running (snd st)) (if_tasks (fst st)) \<and>
     (\<forall>addr \<in> dom (if_tasks (fst st)). wanted_if (mdns_cfg (fst st)) addr)"

lemma iface_new_addr: "iface_new A addr c i q w = Ret (Some s, w') \<Longrightarrow> iface_addr s = addr"
  by (auto simp: iface_new_def Let_def split_beta and_then_eq_Ret split: option.splits prod.splits)

lemma tasks_match_spawn:
  assumes "observes_tasks A running" "tasks_match running (b, w)" "if_tasks b (iface_addr s) = None"
    and "wanted_if (mdns_cfg b) (iface_addr s)" "mb_spawn A s w = (h, w')"
  shows "tasks_match running (b\<lparr>if_tasks := (if_tasks b)(iface_addr s \<mapsto> h)\<rparr>, w')"
proof -
  have "h \<notin> snd ` running w" "running w' = insert (iface_addr s, h) (running w)"
    using assms(1,5) unfolding observes_tasks_def by (metis fst_conv, metis fst_conv snd_conv)
  moreover have "one_each (running w) (if_tasks b)" using assms(2) by (simp add: tasks_match_def)
  ultimately have "one_each (running w') ((if_tasks b)(iface_addr s \<mapsto> h))"
    using assms(3) by (simp add: one_each_add)
  then show ?thesis using assms(2,4) by (simp add: tasks_match_def)
qed

lemma tasks_match_abort:
  assumes "observes_tasks A running" "tasks_match running (b, w)" "if_tasks b addr = Some h"
  shows "tasks_match running (b\<lparr>if_tasks := (if_tasks b)(addr := None)\<rparr>, mb_abort A h w)"
proof -
  have "running (mb_abort A h w) = {t \<in> running w. snd t \<noteq> h}"
    using assms(1) by (simp add: observes_tasks_def)
  then have "one_each (running (mb_abort A h w)) ((if_tasks b)(addr := None))"
    using one_each_remove [of "running w" "if_tasks b" addr h] assms(2,3) by (simp add: tasks_match_def)
  then show ?thesis using assms(2) by (simp add: tasks_match_def)
qed

lemma tasks_match_unchanged:
  "tasks_match running (b, w) \<Longrightarrow> running w1 = running w \<Longrightarrow> if_tasks b1 = if_tasks b \<Longrightarrow>
     mdns_cfg b1 = mdns_cfg b \<Longrightarrow> tasks_match running (b1, w1)"
  by (simp add: tasks_match_def)

text \<open>What \<open>handle_if_event\<close> does with an interface that comes up.\<close>

lemma handle_if_up:
  "handle_if_event A (IfUp addr) (b, w) =
     (if wanted_if (mdns_cfg b) addr \<and> if_tasks b addr = None
      then and_then (iface_new (mb_iface A) addr (mdns_cfg b) (mdns_local_peer_id b) (mdns_sender b) w)
        (\<lambda>(made, w1). Ret (case made of None \<Rightarrow> (b, w1)
          | Some s \<Rightarrow> (b\<lparr>if_tasks := (if_tasks b)(addr \<mapsto> fst (mb_spawn A s w1))\<rparr>, snd (mb_spawn A s w1))))
      else Ret (b, w))"
proof -
  have "(\<lambda>(made, w1). case made of
          Some s \<Rightarrow> (let (handle, w2) = mb_spawn A s w1 in Ret (b\<lparr>if_tasks := (if_tasks b)(addr \<mapsto> handle)\<rparr>, w2))
        | None \<Rightarrow> Ret (b, w1)) =
      (\<lambda>(made, w1). Ret (case made of None \<Rightarrow> (b, w1)
          | Some s \<Rightarrow> (b\<lparr>if_tasks := (if_tasks b)(addr \<mapsto> fst (mb_spawn A s w1))\<rparr>, snd (mb_spawn A s w1))))"
    by (auto simp: fun_eq_iff split_beta Let_def split: option.splits)
  moreover have "is_ipv4 addr \<longleftrightarrow> \<not> is_ipv6 addr" by (cases addr) simp_all
  ultimately show ?thesis by (simp add: handle_if_event_def wanted_if_def)
qed

lemma handle_if_event_tasks:
  assumes "observes_tasks A running" "tasks_match running (b, w)" "handle_if_event A event (b, w) = Ret st'"
  shows "tasks_match running st'"
proof (cases event)
  case (IfUp addr)
  show ?thesis
  proof (cases "wanted_if (mdns_cfg b) addr \<and> if_tasks b addr = None")
    case True
    then obtain made w1 where made:
      "iface_new (mb_iface A) addr (mdns_cfg b) (mdns_local_peer_id b) (mdns_sender b) w = Ret (made, w1)"
      and st': "st' = (case made of None \<Rightarrow> (b, w1)
        | Some s \<Rightarrow> (b\<lparr>if_tasks := (if_tasks b)(addr \<mapsto> fst (mb_spawn A s w1))\<rparr>, snd (mb_spawn A s w1)))"
      using assms(3) by (auto simp: IfUp handle_if_up)
    have "running w1 = running w" using assms(1) made unfolding observes_tasks_def by blast
    with assms(2) have ok: "tasks_match running (b, w1)" by (simp add: tasks_match_unchanged)
    show ?thesis
    proof (cases made)
      case None
      with ok st' show ?thesis by simp
    next
      case (Some s)
      with made have "iface_addr s = addr" using iface_new_addr by fastforce
      with tasks_match_spawn [OF assms(1) ok, of s "fst (mb_spawn A s w1)" "snd (mb_spawn A s w1)"] True st' Some
      show ?thesis by simp
    qed
  next
    case False
    with assms(2,3) show ?thesis by (simp add: IfUp handle_if_up)
  qed
next
  case (IfDown addr)
  with assms tasks_match_abort [OF assms(1,2)] show ?thesis
    by (auto simp: handle_if_event_def split: option.splits)
qed (use assms in \<open>simp add: handle_if_event_def\<close>)

lemma watch_interfaces_tasks:
  assumes "watch_interfaces A st = Some (Ret st')" "observes_tasks A running" "tasks_match running st"
  shows "tasks_match running st'"
  using assms(1,3)
proof (induction rule: watch_interfaces_induct)
  case (stop b w w')
  from stop(1) assms(2) have "running w' = running w" unfolding observes_tasks_def by (metis snd_conv)
  with stop(2) show ?case by (rule tasks_match_unchanged) simp_all
next
  case (step b w ev w1 st1 st')
  from step(1) assms(2) have "running w1 = running w" unfolding observes_tasks_def by (metis snd_conv)
  with step(4) have "tasks_match running (b, w1)" by (rule tasks_match_unchanged) simp_all
  from handle_if_event_tasks [OF assms(2) this step(2)] show ?case by (rule step(3))
qed

lemma receive_discovered_running:
  "receive_discovered A st w = Some (st', w') \<Longrightarrow> observes_tasks A running \<Longrightarrow> running w' = running w"
  by (induction rule: receive_discovered_induct) (auto simp: observes_tasks_def, (metis snd_conv)+)

lemma arm_timer_tasks:
  "arm_timer A c st = Ret st' \<Longrightarrow> if_tasks (fst st') = if_tasks (fst st) \<and> mdns_cfg (fst st') = mdns_cfg (fst st)"
  "arm_timer A c st = Ret st' \<Longrightarrow> observes_tasks A running \<Longrightarrow> running (snd st') = running (snd st)"
  by (auto simp: arm_timer_def observes_tasks_def timer_poll_next_def Let_def split_beta split: option.splits)

lemma finish_poll_arms:
  assumes "finish_poll A discovered (b, w) = Ret (r, b', w')"
  shows "\<exists>c b2 st1. arm_timer A c (b2, snd (tk_now (if_tokio (mb_iface A)) w)) = Ret st1 \<and> w' = snd st1 \<and>
    if_tasks b' = if_tasks (fst st1) \<and> mdns_cfg b' = mdns_cfg (fst st1) \<and>
    if_tasks b2 = if_tasks b \<and> mdns_cfg b2 = mdns_cfg b"
proof -
  from assms obtain c q ns st1 where
    arm: "arm_timer A c (b\<lparr>discovered_nodes := ns, mdns_queue := q\<rparr>, snd (tk_now (if_tokio (mb_iface A)) w)) = Ret st1"
    and over: "hand_over st1 = (r, b', w')"
    by (auto simp: finish_poll_def Let_def split_beta)
  have "if_tasks b' = if_tasks (fst st1) \<and> mdns_cfg b' = mdns_cfg (fst st1) \<and> w' = snd st1"
    using over by (auto simp: hand_over_def split: list.splits)
  with arm show ?thesis by force
qed

lemma finish_poll_frame:
  "finish_poll A discovered (b, w) = Ret (r, b', w') \<Longrightarrow> if_tasks b' = if_tasks b \<and> mdns_cfg b' = mdns_cfg b"
  by (drule finish_poll_arms) (auto dest!: arm_timer_tasks(1))

lemma finish_poll_running:
  assumes "finish_poll A discovered (b, w) = Ret (r, b', w')" "observes_tasks A running"
  shows "running w' = running w"
proof -
  from finish_poll_arms [OF assms(1)] arm_timer_tasks(2) [OF _ assms(2)] have
    "running w' = running (snd (tk_now (if_tokio (mb_iface A)) w))" by fastforce
  with assms(2) show ?thesis by (simp add: observes_tasks_def)
qed

lemma mdns_poll_tasks:
  assumes "mdns_poll A (b, w) = Some (Ret (r, b', w'))" "observes_tasks A running" "tasks_match running (b, w)"
  shows "tasks_match running (b', w')"
proof -
  from mdns_poll_parts [OF assms(1)] obtain b1 w1 nodes discovered w2 where
    watch: "watch_interfaces A (b, w) = Some (Ret (b1, w1))"
    and recv: "receive_discovered A (discovered_nodes b1, []) w1 = Some ((nodes, discovered), w2)"
    and fin: "finish_poll A discovered (b1\<lparr>discovered_nodes := nodes\<rparr>, w2) = Ret (r, b', w')"
    by blast
  from watch_interfaces_tasks [OF watch assms(2,3)] show ?thesis
    by (rule tasks_match_unchanged)
      (use finish_poll_frame [OF fin] finish_poll_running [OF fin assms(2)] receive_discovered_running [OF recv assms(2)] in simp_all)
qed

lemma mdns_run_tasks:
  "mdns_run A cs (b, w) = Some (es, b', w') \<Longrightarrow> observes_tasks A running \<Longrightarrow> tasks_match running (b, w) \<Longrightarrow>
     tasks_match running (b', w')"
proof (induction A cs "(b, w)" arbitrary: b w es rule: mdns_run.induct)
  case (2 A x cs)
  then show ?case by (simp add: mdns_on_swarm_event_def tasks_match_def observes_tasks_def)
next
  case (3 A cs)
  from 3(2) obtain r b1 w1 es1 where poll: "mdns_poll A (b, w) = Some (Ret (r, b1, w1))"
    and run: "mdns_run A cs (b1, w1) = Some (es1, b', w')"
    by (auto split: option.splits outcome.splits)
  from 3(1) [OF poll refl refl run] mdns_poll_tasks [OF poll] 3(3,4) show ?case by blast
qed simp

lemma mdns_poll_config:
  assumes "mdns_poll A (b, w) = Some (Ret (r, b', w'))"
  shows "mdns_cfg b' = mdns_cfg b"
proof -
  from mdns_poll_parts [OF assms] obtain b1 w1 nodes discovered w2 where
    watch: "watch_interfaces A (b, w) = Some (Ret (b1, w1))"
    and fin: "finish_poll A discovered (b1\<lparr>discovered_nodes := nodes\<rparr>, w2) = Ret (r, b', w')"
    by blast
  from watch_interfaces_frame [OF watch] finish_poll_frame [OF fin] show ?thesis by simp
qed

lemma mdns_run_config: "mdns_run A cs (b, w) = Some (es, b', w') \<Longrightarrow> mdns_cfg b' = mdns_cfg b"
proof (induction A cs "(b, w)" arbitrary: b w es rule: mdns_run.induct)
  case (3 A cs)
  from 3(2) obtain r b1 w1 es1 where poll: "mdns_poll A (b, w) = Some (Ret (r, b1, w1))"
    and run: "mdns_run A cs (b1, w1) = Some (es1, b', w')"
    by (auto split: option.splits outcome.splits)
  from 3(1) [OF poll refl refl run] mdns_poll_config [OF poll] show ?case by simp
qed (simp_all add: mdns_on_swarm_event_def)

text \<open>
  C12: From a new behaviour in a world where none of its tasks runs, after any swarm events and
  polls, the tasks that run are exactly those of the table, one for each of its addresses, and
  every address of the table is of the configured family and not a loopback address. So an
  interface that comes up twice has one task, and one that goes down leaves none behind.
\<close>

theorem interface_tasks_match:
  assumes "mdns_new A config me tx w0 = Ret (Some b0, w1)" "observes_tasks A running" "running w0 = {}"
    and "mdns_run A cs (b0, w1) = Some (es, b, w)"
  shows "running w = Map.graph (if_tasks b) \<and> inj_on (if_tasks b) (dom (if_tasks b)) \<and>
    (\<forall>addr \<in> dom (if_tasks b). \<not> ip_is_loopback addr \<and> is_ipv6 addr = cfg_ipv6 config)"
proof -
  have b0: "if_tasks b0 = Map.empty" "mdns_cfg b0 = config" and w1: "w1 = snd (mb_watcher_new A w0)"
    using assms(1) by (auto simp: mdns_new_def split: if_splits prod.splits bool.splits)
  have "running w1 = {}" using assms(2,3) unfolding w1 observes_tasks_def by simp
  then have "tasks_match running (b0, w1)" by (simp add: tasks_match_def b0 one_each_def)
  from mdns_run_tasks [OF assms(4,2) this] mdns_run_config [OF assms(4)] b0 show ?thesis
    by (simp add: tasks_match_def one_each_def wanted_if_def)
qed

section \<open>The life of an interface task\<close>

text \<open>
  The polls of a task, each in the world of its time: the state after them, if each has answered
  \<open>Pending\<close>. A task that finishes, panics or does not return is polled no more.
\<close>

fun iface_polls ::
    "('w, 't, 's, 'q, 'a, 'i, 'e, 'n) iface_api \<Rightarrow> 'w list \<Rightarrow> ('t, 's, 'q, 'a, 'i) iface
      \<Rightarrow> ('t, 's, 'q, 'a, 'i) iface option" where
  "iface_polls A [] s = Some s"
| "iface_polls A (w # ws) s =
     (case iface_poll A (s, w) of
        Some (Ret (Pending, s', _)) \<Rightarrow> iface_polls A ws s'
      | _ \<Rightarrow> None)"

lemma iface_poll_keeps_ok:
  assumes "iface_poll A st = Some (Ret (p, st'))" "outside_ok A d" "iface_ok d (fst st)"
  shows "iface_ok d (fst st')"
  using assms(1,3)
proof (induction rule: iface_poll_induct)
  case (return st p st')
  with iface_pass_ok [OF assms(2) return.prems] show ?case by auto
next
  case (again st st1 st')
  with iface_pass_ok [OF assms(2) again.prems] show ?case by auto
qed

lemma iface_polls_ok:
  "finite_input A budget \<Longrightarrow> outside_ok A d \<Longrightarrow> receiver_alive A \<Longrightarrow> iface_ok d s \<Longrightarrow>
     iface_polls A ws s \<noteq> None"
proof (induction ws arbitrary: s)
  case (Cons w ws)
  obtain r where r: "iface_poll A (s, w) = Some r" using iface_poll_ends [OF Cons.prems(1)] by blast
  with iface_poll_no_panic [OF Cons.prems(2), of "(s, w)"] Cons.prems(4)
  obtain p s' w' where "r = Ret (p, s', w')" by (cases r) auto
  moreover from iface_poll_pending [OF Cons.prems(3)] r this have "p = Pending" by simp
  ultimately show ?case using r iface_poll_keeps_ok [OF _ Cons.prems(2), of "(s, w)" p "(s', w')"] Cons by simp
qed simp

lemma iface_new_ok:
  assumes "iface_new A addr c me q w = Ret (Some s, w1)"
    and "service_ok (cfg_service_name c)" "service_ok (cfg_meta_query_service c)"
    and "0 < cfg_probe_interval c" "cfg_probe_interval c * 2 \<le> dur_max"
    and "cfg_probe_interval c < cfg_query_interval c" "cfg_query_interval c + 99000000 \<le> d"
    and "\<forall>w. fst (if_jitter A w) < 100"
  shows "iface_ok d s"
proof -
  obtain j qi w2 where j: "j = fst (if_jitter A w2)" "dur_add (cfg_query_interval c) (dur_from_millis j) = Ret qi"
    and s: "query_interval s = qi" "iface_probe s = Probing (cfg_probe_interval c)" "iface_config s = c"
    using assms(1) by (auto simp: iface_new_def Let_def split_beta split: option.splits prod.splits)
  have "unat j < 100" using assms(8) j(1) by (simp add: word_less_nat_alt)
  then have "dur_from_millis j \<le> 99000000" by (simp add: dur_from_millis_def)
  with j(2) have "cfg_query_interval c \<le> qi" "qi \<le> d"
    using assms(7) by (auto simp: dur_add_def split: if_splits)
  with s assms(2-6) show ?thesis by (simp add: iface_ok_def)
qed

text \<open>
  C8: The task of a new interface does not stop while the behaviour holds the other end of its
  channel: with a service name of at most 62 bytes and no dot, a probe interval that is not zero,
  can be doubled and is less than the query interval, and an outside that gives finitely many
  ticks and datagrams per poll, each of its polls comes back, with \<open>Pending\<close> and without a panic,
  and leaves it fit for the next, whatever it receives.
\<close>

theorem interface_task_never_stops:
  assumes "iface_new A addr (config_service_name c name) me q w = Ret (Some s, w1)"
    and "CHR ''.'' \<notin> set name" "length name \<le> 62"
    and "0 < cfg_probe_interval c" "cfg_probe_interval c * 2 \<le> dur_max"
    and "cfg_probe_interval c < cfg_query_interval c" "cfg_query_interval c + 99000000 \<le> d"
    and "\<forall>w. fst (if_jitter A w) < 100" "outside_ok A d" "finite_input A budget" "receiver_alive A"
  shows "\<exists>s'. iface_polls A ws s = Some s'"
proof -
  have "cfg_probe_interval (config_service_name c name) = cfg_probe_interval c"
    "cfg_query_interval (config_service_name c name) = cfg_query_interval c"
    by (simp_all add: config_service_name_def Let_def)
  with iface_new_ok [OF assms(1) _ _ _ _ _ _ assms(8), of d] config_service_name_ok [OF assms(2), of c] assms(3-7)
  have "iface_ok d s" by simp
  from iface_polls_ok [OF assms(10,9,11) this] show ?thesis by blast
qed

section \<open>An example\<close>

text \<open>
  The world is the interface events and the answers to come, the running tasks and the clock,
  which every reading moves by 4.
\<close>

type_synonym sample_world =
  "if_event list \<times> (nat \<times> nat protocol list \<times> instant) list \<times> (ip_addr \<times> nat) list \<times> instant"

definition sample_mdns_iface ::
    "(sample_world, unit, unit, unit, nat protocol list, nat, unit, bytes list) iface_api" where
  "sample_mdns_iface =
     \<lparr>if_tokio = \<lparr>tk_now = (\<lambda>(evs, ans, run, now). (now, evs, ans, run, now + 4)),
        tk_interval_at = (\<lambda>start d. if d = 0 then Panic else Ret ()), tk_skip_missed = (\<lambda>t. t),
        tk_poll_tick = (\<lambda>t w. (False, t, w))\<rparr>,
      if_dns = wire_lib, if_addr = sample_lib, if_translate = (\<lambda>a obs. Some a),
      if_mdns_v4 = 0xE00000FB, if_mdns_v6 = 0xFF0200000000000000000000000000FB,
      if_random_u16 = (\<lambda>w. (7, w)), if_peer_rng = (\<lambda>w. (sample_rng, w)), if_jitter = (\<lambda>w. (5, w)),
      if_socket = (\<lambda>v6 w. (Some (), w)), if_udp_bind = (\<lambda>a w. (Some (), w)),
      if_sock_op = (\<lambda>op s w. (True, w)), sk_recv_from = (\<lambda>n s w. (Pending, w)),
      sk_send_to = (\<lambda>p to s w. (Ready True, w)), ch_poll_ready = (\<lambda>q w. (True, w)),
      ch_try_send = (\<lambda>d q w. (Sent, w)), if_listen_addrs = (\<lambda>w. [])\<rparr>"

definition sample_mdns ::
    "(sample_world, unit, unit, unit, nat protocol list, nat, unit, bytes list, nat, unit) mdns_api" where
  "sample_mdns =
     \<lparr>mb_iface = sample_mdns_iface, mb_watcher_new = (\<lambda>w. (True, w)),
      mb_watch = (\<lambda>(evs, w). case evs of [] \<Rightarrow> (None, [], w) | e # es \<Rightarrow> (Some e, es, w)),
      mb_recv = (\<lambda>(evs, ans, w). case ans of [] \<Rightarrow> (None, evs, [], w) | d # ds \<Rightarrow> (Some d, evs, ds, w)),
      mb_spawn = (\<lambda>s (evs, ans, run, now).
        let h = Suc (sum_list (map snd run)) in (h, evs, ans, (iface_addr s, h) # run, now)),
      mb_abort = (\<lambda>h (evs, ans, run, now). (evs, ans, filter (\<lambda>t. snd t \<noteq> h) run, now)),
      mb_listen = (\<lambda>x w. w)\<rparr>"

definition sample_running :: "sample_world \<Rightarrow> (ip_addr \<times> nat) set" where
  "sample_running w = set (fst (snd (snd w)))"

lemma sample_mdns_iface_simps [simp]:
  "if_sock_op sample_mdns_iface op s w = (True, w)" "if_jitter sample_mdns_iface w = (5, w)"
  "if_socket sample_mdns_iface v6 w = (Some (), w)" "if_udp_bind sample_mdns_iface sa w = (Some (), w)"
  "tk_now (if_tokio sample_mdns_iface) w = (snd (snd (snd w)), fst w, fst (snd w), fst (snd (snd w)), snd (snd (snd w)) + 4)"
  "tk_interval_at (if_tokio sample_mdns_iface) start d = (if d = 0 then Panic else Ret ())"
  "tk_poll_tick (if_tokio sample_mdns_iface) t w = (False, t, w)"
  by (simp_all add: sample_mdns_iface_def split_beta)

lemma sample_mdns_simps [simp]:
  "mb_iface sample_mdns = sample_mdns_iface" "mb_watcher_new sample_mdns w = (True, w)"
  "mb_watch sample_mdns ([], w') = (None, [], w')" "mb_watch sample_mdns (e # es, w') = (Some e, es, w')"
  "mb_recv sample_mdns (evs, [], w'') = (None, evs, [], w'')"
  "mb_recv sample_mdns (evs, d # ds, w'') = (Some d, evs, ds, w'')"
  "mb_abort sample_mdns h (evs, ans, run, now) = (evs, ans, filter (\<lambda>t. snd t \<noteq> h) run, now)"
  "mb_spawn sample_mdns s (evs, ans, run, now) =
     (Suc (sum_list (map snd run)), evs, ans, (iface_addr s, Suc (sum_list (map snd run))) # run, now)"
  "mb_listen sample_mdns x w = w"
  by (simp_all add: sample_mdns_def split_beta Let_def)

lemma sample_sock_ops [simp]: "sock_ops sample_mdns_iface ops s w = (True, w)"
  by (induction ops) simp_all

lemma sample_mdns_observed: "observes_tasks sample_mdns sample_running"
proof -
  have new: "sample_running w1 = sample_running w"
    if "iface_new sample_mdns_iface addr c i q w = Ret (o1, w1)" for addr c i q w o1 w1
    using that by (auto simp: iface_new_def open_socket_def sample_running_def Let_def)
  have fresh: "Suc (sum_list (map snd run)) \<notin> snd ` set run" for run :: "(ip_addr \<times> nat) list"
    using member_le_sum_list [of _ "map snd run"] by fastforce
  have spawn: "fst (mb_spawn sample_mdns s w) \<notin> snd ` sample_running w \<and>
      sample_running (snd (mb_spawn sample_mdns s w))
        = insert (iface_addr s, fst (mb_spawn sample_mdns s w)) (sample_running w)" for s w
    by (cases w) (simp add: sample_running_def fresh)
  have abort: "sample_running (mb_abort sample_mdns h w) = {t \<in> sample_running w. snd t \<noteq> h}" for h w
    by (cases w) (auto simp: sample_running_def)
  have "sample_running (snd (mb_watch sample_mdns w)) = sample_running w"
    "sample_running (snd (mb_recv sample_mdns w)) = sample_running w" for w
    by (auto simp: sample_mdns_def sample_running_def split_beta split: list.splits)
  with new spawn abort show ?thesis
    by (simp add: observes_tasks_def) (simp add: sample_running_def)
qed

text \<open>An interface comes up and a peer answers twice; the second poll finds it expired.\<close>

definition sample_mdns_start :: "(unit, unit, nat protocol list, nat, nat) mdns_bhv" where
  "sample_mdns_start =
     \<lparr>mdns_cfg = mdns_config_default, if_tasks = Map.empty, mdns_sender = (), discovered_nodes = [],
      closest_expiration = None, mdns_local_peer_id = 1, mdns_queue = []\<rparr>"

lemma sample_mdns_new:
  "mdns_new sample_mdns mdns_config_default 1 () w = Ret (Some sample_mdns_start, w)"
  by (simp add: mdns_new_def sample_mdns_start_def mdns_config_default_def dur_from_secs_def nanos_per_sec_def)

lemma sample_iface_new:
  "\<exists>s. iface_new sample_mdns_iface addr mdns_config_default i q (evs, ans, run, now)
     = Ret (Some s, evs, ans, run, now + 4) \<and> iface_addr s = addr"
  by (simp add: iface_new_def open_socket_def Let_def mdns_config_default_def dur_from_secs_def
      dur_from_millis_def dur_add_def dur_max_def nanos_per_sec_def timer_interval_at_def)

lemma sample_mdns_up:
  "handle_if_event sample_mdns (IfUp (V4 9)) (sample_mdns_start, evs, ans, [], now)
     = Ret (sample_mdns_start\<lparr>if_tasks := [V4 9 \<mapsto> 1]\<rparr>, evs, ans, [(V4 9, 1)], now + 4)"
proof -
  have start: "mdns_cfg sample_mdns_start = mdns_config_default" "if_tasks sample_mdns_start = Map.empty"
    "wanted_if mdns_config_default (V4 9)"
    by (simp_all add: sample_mdns_start_def wanted_if_def mdns_config_default_def)
  show ?thesis
    using sample_iface_new [of "V4 9" "mdns_local_peer_id sample_mdns_start" "mdns_sender sample_mdns_start" evs ans "[]" now]
    by (auto simp: handle_if_up start)
qed

lemma sample_mdns_watch:
  "watch_interfaces sample_mdns (sample_mdns_start, [IfUp (V4 9)], ans, [], now)
     = Some (Ret (sample_mdns_start\<lparr>if_tasks := [V4 9 \<mapsto> 1]\<rparr>, [], ans, [(V4 9, 1)], now + 4))"
  by (subst watch_interfaces.simps, simp add: sample_mdns_up, subst watch_interfaces.simps, simp)

lemma sample_mdns_poll:
  "mdns_poll sample_mdns (sample_mdns_start, [IfUp (V4 9)], [(2, [Tcp 1], 5), (2, [Tcp 1], 7)], [], 0)
     = Some (Ret (Ready (MdnsDiscovered [(2, [Tcp 1])]),
         sample_mdns_start\<lparr>if_tasks := [V4 9 \<mapsto> 1], discovered_nodes := [(2, [Tcp 1], 7)],
           closest_expiration := Some ()\<rparr>, [], [], [(V4 9, 1)], 8))"
proof -
  have recv: "receive_discovered sample_mdns ([], []) ([], [(2, [Tcp 1], 5), (2, [Tcp 1], 7)], w)
      = Some (([(2, [Tcp 1], 7)], [(2, [Tcp 1])]), [], [], w)" for w
    by (subst receive_discovered.simps, simp add: note_discovered_def, subst receive_discovered.simps,
        simp add: note_discovered_def, subst receive_discovered.simps, simp)
  have fields: "discovered_nodes sample_mdns_start = []" "mdns_queue sample_mdns_start = []"
    by (simp_all add: sample_mdns_start_def)
  have "finish_poll sample_mdns [(2, [Tcp 1])]
      (sample_mdns_start\<lparr>if_tasks := [V4 9 \<mapsto> 1], discovered_nodes := [(2, [Tcp 1], 7)]\<rparr>, [], [], [(V4 9, 1)], 4)
    = Ret (Ready (MdnsDiscovered [(2, [Tcp 1])]),
         sample_mdns_start\<lparr>if_tasks := [V4 9 \<mapsto> 1], discovered_nodes := [(2, [Tcp 1], 7)],
           closest_expiration := Some ()\<rparr>, [], [], [(V4 9, 1)], 8)"
    by (simp add: finish_poll_def arm_timer_def timer_at_def timer_poll_next_def push_unless_empty_def
        hand_over_def sample_mdns_start_def dur_max_def nanos_per_sec_def)
  then show ?thesis by (simp add: mdns_poll_def sample_mdns_watch fields recv)
qed

lemma sample_mdns_run:
  "mdns_run sample_mdns [Some (), None] (sample_mdns_start, [IfUp (V4 9)], [(2, [Tcp 1], 5), (2, [Tcp 1], 7)], [], 0)
     = Some ([MdnsDiscovered [(2, [Tcp 1])]],
         sample_mdns_start\<lparr>if_tasks := [V4 9 \<mapsto> 1], discovered_nodes := [(2, [Tcp 1], 7)],
           closest_expiration := Some ()\<rparr>, [], [], [(V4 9, 1)], 8)"
  by (simp add: mdns_on_swarm_event_def sample_mdns_poll)

lemma mdns_events_tell_the_nodes_witness:
  "believes {} [MdnsDiscovered [(2, [Tcp 1])]] = Some {(2 :: nat, [Tcp 1 :: nat protocol])}"
  using mdns_events_tell_the_nodes [OF sample_mdns_new sample_mdns_run]
  by (simp add: sample_mdns_start_def)

lemma interface_tasks_match_witness: "sample_running ([], [], [(V4 9, 1)], 8) = Map.graph [V4 9 \<mapsto> 1]"
  using interface_tasks_match [OF sample_mdns_new sample_mdns_observed _ sample_mdns_run]
  by (simp add: sample_running_def)

lemma mdns_poll_refines_witness:
  "node_map [(2, [Tcp 1], 7)] = live_part 4 (fold learn [(2 :: nat, [Tcp 1 :: nat protocol], 5), (2, [Tcp 1], 7)] Map.empty)"
proof -
  have wait: "waiting sample_mdns ([], [(2, [Tcp 1], 5), (2, [Tcp 1], 7)], [(V4 9, 1)], 4)
      [(2, [Tcp 1], 5), (2, [Tcp 1], 7)] ([], [], [(V4 9, 1)], 4)"
    by (rule waiting_more, simp, rule waiting_more, simp, rule waiting_none, simp)
  have watch: "watch_interfaces sample_mdns (sample_mdns_start, [IfUp (V4 9)], [(2, [Tcp 1], 5), (2, [Tcp 1], 7)], [], 0)
     = Some (Ret (sample_mdns_start\<lparr>if_tasks := [V4 9 \<mapsto> 1]\<rparr>, [], [(2, [Tcp 1], 5), (2, [Tcp 1], 7)], [(V4 9, 1)], 4))"
    by (simp add: sample_mdns_watch)
  have "distinct (node_keys (discovered_nodes sample_mdns_start))" by (simp add: sample_mdns_start_def)
  from mdns_poll_refines [OF this watch wait refl sample_mdns_poll, of 2, THEN conjunct1] show ?thesis
    by (simp add: sample_mdns_start_def)
qed

lemma interface_task_never_stops_witness:
  "\<exists>s s'. iface_new sample_iface_api (V4 9) (config_service_name mdns_config_default []) 1 () (0, [])
     = Ret (Some s, (0, [])) \<and>
   iface_polls sample_iface_api [(2, [([1, 2, 3], \<lparr>ip = V4 9, port = 5353\<rparr>)]), (0, [])] s = Some s'"
proof -
  have ops: "sock_ops sample_iface_api ops s w = (True, w)" for ops s w
    by (induction ops) (simp_all add: sample_iface_api_def)
  have fields: "if_socket sample_iface_api v6 w = (Some (), w)" "if_udp_bind sample_iface_api a w = (Some (), w)"
    "if_jitter sample_iface_api w = (5, w)" "tk_now (if_tokio sample_iface_api) w = (0, w)"
    "timer_interval_at (if_tokio sample_iface_api) start d = (if d = 0 then Panic else Ret ())" for v6 a w start d
    by (simp_all add: sample_iface_api_def timer_interval_at_def)
  obtain s where new: "iface_new sample_iface_api (V4 9) (config_service_name mdns_config_default []) 1 () (0, [])
      = Ret (Some s, (0, []))"
    by (simp add: iface_new_def open_socket_def ops fields Let_def config_service_name_def
        mdns_config_default_def dur_from_secs_def dur_from_millis_def dur_add_def dur_max_def nanos_per_sec_def)
  have "outside_ok sample_iface_api 3099000000"
    by (simp add: outside_ok_def sample_iface_api_def period_checked_def sample_rng_ok inst_max_def nanos_per_sec_def)
  moreover have "receiver_alive sample_iface_api" by (simp add: receiver_alive_def sample_iface_api_def)
  ultimately have "\<exists>s'. iface_polls sample_iface_api [(2, [([1, 2, 3], \<lparr>ip = V4 9, port = 5353\<rparr>)]), (0, [])] s = Some s'"
    using interface_task_never_stops [OF new _ _ _ _ _ _ _ _ sample_iface_finite, where d = 3099000000 and
      ws = "[(2, [([1, 2, 3], \<lparr>ip = V4 9, port = 5353\<rparr>)]), (0, [])]"]
    by (simp add: fields mdns_config_default_def dur_from_secs_def dur_max_def nanos_per_sec_def del: iface_polls.simps)
  with new show ?thesis by blast
qed

end
