(* ===== verification/NodeConfig.thy ===== *)
theory NodeConfig
  imports AddrLib
begin

text \<open>
  \<open>src/config.rs\<close> and \<open>src/constants.rs\<close>: the configuration of a node, its builder and the
  known peers of the defaults. Parsing a peer id and a multiaddress is libp2p's.
\<close>

section \<open>Known peers\<close>

text \<open>Both \<open>unwrap\<close>s panic on text that does not parse.\<close>

fun build_concretes :: "('a, 'i) addr_lib \<Rightarrow> (string \<times> string) list \<Rightarrow> ('i \<times> 'a) list outcome" where
  "build_concretes L [] = Ret []"
| "build_concretes L ((peer_id, addr) # rest) =
     (case pid_parse L peer_id of
        None \<Rightarrow> Panic
      | Some peer \<Rightarrow>
          (case ma_parse L addr of
             None \<Rightarrow> Panic
           | Some address \<Rightarrow>
               and_then (build_concretes L rest) (\<lambda>concretes. Ret ((peer, address) # concretes))))"

definition BOOTNODES :: "(string \<times> string) list" where
  "BOOTNODES =
     [(''QmNnooDu7bfjPFoTZYxMNLWUQJyrVwtbZg5gBMjTezGAJN'', ''/dnsaddr/bootstrap.libp2p.io''),
      (''QmQCU2EcMqAqQPR2i9bChDtGNJchTbq5TbXJJ16u19uLTa'', ''/dnsaddr/bootstrap.libp2p.io''),
      (''QmbLHAnMoJPWSCR5Zhtx6BHJX9KiKNN6tpvbUcqanj75Nb'', ''/dnsaddr/bootstrap.libp2p.io''),
      (''QmcZf59bWwK5XFi76CZX8cbJ4BhTzzA3gU1ZjYZcYW3dwt'', ''/dnsaddr/bootstrap.libp2p.io'')]"

definition RELAY_SERVERS :: "(string \<times> string) list" where
  "RELAY_SERVERS =
     [(''12D3KooWQANRJdBvMCE2HRQAPTpunWZ3Vg3k2X2DjJsuCtg4K4SZ'', ''/ip4/162.205.50.166/tcp/4111''),
      (''12D3KooWRW5KgEc71mvCcd2hFtuH3HhthJRSpeM7h4LURDif9cMF'', ''/ip4/113.161.95.53/tcp/4111'')]"

definition RDVZ_POINTS :: "(string \<times> string) list" where
  "RDVZ_POINTS =
     [(''12D3KooWGjSE7eCu5f1Pa8pGxscmoEcdQ5BRMGqbyMvL2dhrPCS5'', ''/ip4/162.205.50.166/tcp/62649''),
      (''12D3KooWENTLiCwwoVwYNbKFEfmNdyHG1jxNn9oPB29JeeZXWjAb'', ''/ip4/113.161.95.53/tcp/62649'')]"

definition default_bootnodes :: "('a, 'i) addr_lib \<Rightarrow> ('i \<times> 'a) list outcome" where
  "default_bootnodes L = build_concretes L BOOTNODES"

definition default_relay_servers :: "('a, 'i) addr_lib \<Rightarrow> ('i \<times> 'a) list outcome" where
  "default_relay_servers L = build_concretes L RELAY_SERVERS"

definition default_rendezvous_points :: "('a, 'i) addr_lib \<Rightarrow> ('i \<times> 'a) list outcome" where
  "default_rendezvous_points L = build_concretes L RDVZ_POINTS"

section \<open>The configuration\<close>

record ('a, 'i) node_config =
  nc_seed :: "bytes option"
  nc_bootstrap_nodes :: "('i \<times> 'a) list"
  nc_relay_nodes :: "('i \<times> 'a) list"
  nc_rendezvous_nodes :: "('i \<times> 'a) list"
  nc_rendezvous_namespaces :: "string list"
  nc_rendezvous_ttl :: "u64 option"
  nc_mdns_service_name :: string
  nc_mdns_probe_interval :: duration
  nc_mdns_query_interval :: duration
  nc_enable_mdns :: bool
  nc_enable_rendezvous :: bool
  nc_enable_dht :: bool
  nc_enable_relay :: bool
  nc_enable_republish :: bool

text \<open>The getters, of the names of the source with \<open>config_of_\<close> before them.\<close>

definition config_of_seed :: "('a, 'i) node_config \<Rightarrow> bytes option" where
  "config_of_seed c = nc_seed c"

definition config_of_bootstrap_nodes :: "('a, 'i) node_config \<Rightarrow> ('i \<times> 'a) list" where
  "config_of_bootstrap_nodes c = nc_bootstrap_nodes c"

definition config_of_relay_nodes :: "('a, 'i) node_config \<Rightarrow> ('i \<times> 'a) list" where
  "config_of_relay_nodes c = nc_relay_nodes c"

definition config_of_rendezvous_points :: "('a, 'i) node_config \<Rightarrow> ('i \<times> 'a) list" where
  "config_of_rendezvous_points c = nc_rendezvous_nodes c"

definition config_of_rendezvous_namespaces :: "('a, 'i) node_config \<Rightarrow> string list" where
  "config_of_rendezvous_namespaces c = nc_rendezvous_namespaces c"

definition config_of_rendezvous_ttl :: "('a, 'i) node_config \<Rightarrow> u64 option" where
  "config_of_rendezvous_ttl c = nc_rendezvous_ttl c"

definition config_of_mdns_service_name :: "('a, 'i) node_config \<Rightarrow> string" where
  "config_of_mdns_service_name c = nc_mdns_service_name c"

definition config_of_mdns_probe_interval :: "('a, 'i) node_config \<Rightarrow> duration" where
  "config_of_mdns_probe_interval c = nc_mdns_probe_interval c"

definition config_of_mdns_query_interval :: "('a, 'i) node_config \<Rightarrow> duration" where
  "config_of_mdns_query_interval c = nc_mdns_query_interval c"

definition config_of_enable_mdns :: "('a, 'i) node_config \<Rightarrow> bool" where
  "config_of_enable_mdns c = nc_enable_mdns c"

definition config_of_enable_rendezvous :: "('a, 'i) node_config \<Rightarrow> bool" where
  "config_of_enable_rendezvous c = nc_enable_rendezvous c"

definition config_of_enable_dht :: "('a, 'i) node_config \<Rightarrow> bool" where
  "config_of_enable_dht c = nc_enable_dht c"

definition config_of_enable_relay :: "('a, 'i) node_config \<Rightarrow> bool" where
  "config_of_enable_relay c = nc_enable_relay c"

definition config_of_enable_republish :: "('a, 'i) node_config \<Rightarrow> bool" where
  "config_of_enable_republish c = nc_enable_republish c"

lemmas config_getters =
  config_of_seed_def config_of_bootstrap_nodes_def config_of_relay_nodes_def
  config_of_rendezvous_points_def config_of_rendezvous_namespaces_def config_of_rendezvous_ttl_def
  config_of_mdns_service_name_def config_of_mdns_probe_interval_def config_of_mdns_query_interval_def
  config_of_enable_mdns_def config_of_enable_rendezvous_def config_of_enable_dht_def
  config_of_enable_relay_def config_of_enable_republish_def

text \<open>\<open>#[derive(Default)]\<close>: every field's own default, not the builder's.\<close>

definition node_config_default :: "('a, 'i) node_config" where
  "node_config_default =
     \<lparr>nc_seed = None, nc_bootstrap_nodes = [], nc_relay_nodes = [], nc_rendezvous_nodes = [],
      nc_rendezvous_namespaces = [], nc_rendezvous_ttl = None, nc_mdns_service_name = [],
      nc_mdns_probe_interval = 0, nc_mdns_query_interval = 0, nc_enable_mdns = False,
      nc_enable_rendezvous = False, nc_enable_dht = False, nc_enable_relay = False,
      nc_enable_republish = False\<rparr>"

text \<open>
  The builder: a field holds what its setter was given, \<open>None\<close> when it was not called. Of the
  seed the setter strips the option. \<open>build\<close> takes the default of the field's attribute for
  every setter that was not called.
\<close>

record ('a, 'i) config_builder =
  cb_seed :: "bytes option"
  cb_bootstrap_nodes :: "('i \<times> 'a) list option"
  cb_relay_nodes :: "('i \<times> 'a) list option"
  cb_rendezvous_nodes :: "('i \<times> 'a) list option"
  cb_rendezvous_namespaces :: "string list option"
  cb_rendezvous_ttl :: "u64 option option"
  cb_mdns_service_name :: "string option"
  cb_mdns_probe_interval :: "duration option"
  cb_mdns_query_interval :: "duration option"
  cb_enable_mdns :: "bool option"
  cb_enable_rendezvous :: "bool option"
  cb_enable_dht :: "bool option"
  cb_enable_relay :: "bool option"
  cb_enable_republish :: "bool option"

definition config_builder_default :: "('a, 'i) config_builder" where
  "config_builder_default =
     \<lparr>cb_seed = None, cb_bootstrap_nodes = None, cb_relay_nodes = None, cb_rendezvous_nodes = None,
      cb_rendezvous_namespaces = None, cb_rendezvous_ttl = None, cb_mdns_service_name = None,
      cb_mdns_probe_interval = None, cb_mdns_query_interval = None, cb_enable_mdns = None,
      cb_enable_rendezvous = None, cb_enable_dht = None, cb_enable_relay = None,
      cb_enable_republish = None\<rparr>"

definition given_or :: "'v outcome \<Rightarrow> 'v option \<Rightarrow> 'v outcome" where
  "given_or dflt given = (case given of Some v \<Rightarrow> Ret v | None \<Rightarrow> dflt)"

definition value_or :: "'v \<Rightarrow> 'v option \<Rightarrow> 'v" where
  "value_or dflt given = (case given of Some v \<Rightarrow> v | None \<Rightarrow> dflt)"

definition config_build :: "('a, 'i) addr_lib \<Rightarrow> ('a, 'i) config_builder \<Rightarrow> ('a, 'i) node_config outcome" where
  "config_build L cb =
     and_then (given_or (default_bootnodes L) (cb_bootstrap_nodes cb)) (\<lambda>bootstrap.
     and_then (given_or (default_relay_servers L) (cb_relay_nodes cb)) (\<lambda>relays.
     and_then (given_or (default_rendezvous_points L) (cb_rendezvous_nodes cb)) (\<lambda>points.
       Ret \<lparr>nc_seed = cb_seed cb, nc_bootstrap_nodes = bootstrap, nc_relay_nodes = relays,
            nc_rendezvous_nodes = points,
            nc_rendezvous_namespaces = value_or [] (cb_rendezvous_namespaces cb),
            nc_rendezvous_ttl = value_or None (cb_rendezvous_ttl cb),
            nc_mdns_service_name = value_or [] (cb_mdns_service_name cb),
            nc_mdns_probe_interval = value_or (dur_from_secs 2) (cb_mdns_probe_interval cb),
            nc_mdns_query_interval = value_or (dur_from_secs 3) (cb_mdns_query_interval cb),
            nc_enable_mdns = value_or False (cb_enable_mdns cb),
            nc_enable_rendezvous = value_or False (cb_enable_rendezvous cb),
            nc_enable_dht = value_or False (cb_enable_dht cb),
            nc_enable_relay = value_or False (cb_enable_relay cb),
            nc_enable_republish = value_or False (cb_enable_republish cb)\<rparr>)))"

section \<open>What the defaults parse to\<close>

definition parses :: "('a, 'i) addr_lib \<Rightarrow> string \<times> string \<Rightarrow> bool" where
  "parses L e \<longleftrightarrow> pid_parse L (fst e) \<noteq> None \<and> ma_parse L (snd e) \<noteq> None"

definition concrete :: "('a, 'i) addr_lib \<Rightarrow> string \<times> string \<Rightarrow> 'i \<times> 'a" where
  "concrete L e = (the (pid_parse L (fst e)), the (ma_parse L (snd e)))"

lemma build_concretes_map:
  "build_concretes L es = (if list_all (parses L) es then Ret (map (concrete L) es) else Panic)"
  by (induction L es rule: build_concretes.induct) (auto simp: parses_def concrete_def split: option.splits)

text \<open>
  Building a configuration panics exactly when one of the three lists of known peers is left
  to its default and an entry of that default does not parse; else every field is what its
  setter was given, or the default of its attribute, the known peers in the order of the source.
\<close>

theorem config_build_fields:
  "config_build L cb =
     (if (cb_bootstrap_nodes cb = None \<and> \<not> list_all (parses L) BOOTNODES) \<or>
         (cb_relay_nodes cb = None \<and> \<not> list_all (parses L) RELAY_SERVERS) \<or>
         (cb_rendezvous_nodes cb = None \<and> \<not> list_all (parses L) RDVZ_POINTS)
      then Panic
      else Ret \<lparr>nc_seed = cb_seed cb,
            nc_bootstrap_nodes = value_or (map (concrete L) BOOTNODES) (cb_bootstrap_nodes cb),
            nc_relay_nodes = value_or (map (concrete L) RELAY_SERVERS) (cb_relay_nodes cb),
            nc_rendezvous_nodes = value_or (map (concrete L) RDVZ_POINTS) (cb_rendezvous_nodes cb),
            nc_rendezvous_namespaces = value_or [] (cb_rendezvous_namespaces cb),
            nc_rendezvous_ttl = value_or None (cb_rendezvous_ttl cb),
            nc_mdns_service_name = value_or [] (cb_mdns_service_name cb),
            nc_mdns_probe_interval = value_or 2000000000 (cb_mdns_probe_interval cb),
            nc_mdns_query_interval = value_or 3000000000 (cb_mdns_query_interval cb),
            nc_enable_mdns = value_or False (cb_enable_mdns cb),
            nc_enable_rendezvous = value_or False (cb_enable_rendezvous cb),
            nc_enable_dht = value_or False (cb_enable_dht cb),
            nc_enable_relay = value_or False (cb_enable_relay cb),
            nc_enable_republish = value_or False (cb_enable_republish cb)\<rparr>)"
proof -
  have secs: "dur_from_secs 2 = 2000000000" "dur_from_secs 3 = 3000000000"
    by (simp_all add: dur_from_secs_def nanos_per_sec_def)
  have given: "given_or (if list_all (parses L) es then Ret (map (concrete L) es) else Panic) given =
      (if given = None \<and> \<not> list_all (parses L) es then Panic else Ret (value_or (map (concrete L) es) given))"
    for es given
    by (cases given) (simp_all add: given_or_def value_or_def)
  show ?thesis
    by (simp add: config_build_def default_bootnodes_def default_relay_servers_def
        default_rendezvous_points_def build_concretes_map given secs)
qed

end
