(* ===== verification/NodeApi.thy ===== *)
theory NodeApi
  imports NodeConfig
begin

text \<open>
  \<open>src/commands.rs\<close>, \<open>src/events.rs\<close>, the unbounded channel of \<open>src/utils.rs\<close> and the
  operations of \<open>src/node.rs\<close> that send commands to the event loop. tokio's channel is the type
  \<open>'q\<close> with the operations of an \<open>mpsc_api\<close>.
\<close>

section \<open>The unbounded channel\<close>

text \<open>
  \<open>mp_send\<close> answers \<open>False\<close> when the receiver is gone, \<open>mp_recv\<close> gives \<open>None\<close> when the
  channel is empty and every sender is gone. \<open>mp_close\<close> and \<open>mp_hang_up\<close> drop the receiver and
  the senders.
\<close>

record ('m, 'q) mpsc_api =
  mp_new :: 'q
  mp_send :: "'m \<Rightarrow> 'q \<Rightarrow> bool \<times> 'q"
  mp_recv :: "'q \<Rightarrow> 'm option poll \<times> 'q"
  mp_close :: "'q \<Rightarrow> 'q"
  mp_hang_up :: "'q \<Rightarrow> 'q"

text \<open>\<open>SendError\<close> carries the message; \<open>UnboundedRecvError\<close> is the unit.\<close>

datatype unbounded_recv_error = UnboundedRecvError

definition unbounded :: "('m, 'q) mpsc_api \<Rightarrow> 'q" where
  "unbounded C = mp_new C"

definition unbounded_send :: "('m, 'q) mpsc_api \<Rightarrow> 'm \<Rightarrow> 'q \<Rightarrow> ('m + unit) \<times> 'q" where
  "unbounded_send C msg q = (let (sent, q1) = mp_send C msg q in (if sent then Inr () else Inl msg, q1))"

definition unbounded_recv :: "('m, 'q) mpsc_api \<Rightarrow> 'q \<Rightarrow> (unbounded_recv_error + 'm) poll \<times> 'q" where
  "unbounded_recv C q =
     (case mp_recv C q of
        (Pending, q1) \<Rightarrow> (Pending, q1)
      | (Ready (Some msg), q1) \<Rightarrow> (Ready (Inr msg), q1)
      | (Ready None, q1) \<Rightarrow> (Ready (Inl UnboundedRecvError), q1))"

text \<open>
  tokio's documented behaviour, by what a channel holds: a queue, in which the sends fail exactly
  when the receiver is gone and receiving ends exactly when the senders are gone and the queue
  is empty.
\<close>

record 'm contents =
  held :: "'m list"
  rx_alive :: bool
  tx_alive :: bool

definition mpsc_ok :: "('m, 'q) mpsc_api \<Rightarrow> ('q \<Rightarrow> 'm contents) \<Rightarrow> bool" where
  "mpsc_ok C see \<longleftrightarrow>
     see (mp_new C) = \<lparr>held = [], rx_alive = True, tx_alive = True\<rparr> \<and>
     (\<forall>m q. fst (mp_send C m q) = rx_alive (see q) \<and>
        see (snd (mp_send C m q)) =
          (if rx_alive (see q) then (see q)\<lparr>held := held (see q) @ [m]\<rparr> else see q)) \<and>
     (\<forall>q. fst (mp_recv C q) =
          (case held (see q) of m # ms \<Rightarrow> Ready (Some m) | [] \<Rightarrow> if tx_alive (see q) then Pending else Ready None) \<and>
        see (snd (mp_recv C q)) = (see q)\<lparr>held := tl (held (see q))\<rparr>) \<and>
     (\<forall>q. see (mp_close C q) = (see q)\<lparr>held := [], rx_alive := False\<rparr>) \<and>
     (\<forall>q. see (mp_hang_up C q) = (see q)\<lparr>tx_alive := False\<rparr>)"

lemma unbounded_send_ok:
  assumes "mpsc_ok C see"
  shows "fst (unbounded_send C m q) = (if rx_alive (see q) then Inr () else Inl m)"
    and "see (snd (unbounded_send C m q)) =
      (if rx_alive (see q) then (see q)\<lparr>held := held (see q) @ [m]\<rparr> else see q)"
  using assms by (simp_all add: mpsc_ok_def unbounded_send_def split_beta Let_def)

text \<open>A channel that is its contents, for the examples.\<close>

definition list_mpsc :: "('m, 'm contents) mpsc_api" where
  "list_mpsc =
     \<lparr>mp_new = \<lparr>held = [], rx_alive = True, tx_alive = True\<rparr>,
      mp_send = (\<lambda>m q. if rx_alive q then (True, q\<lparr>held := held q @ [m]\<rparr>) else (False, q)),
      mp_recv = (\<lambda>q. case held q of m # ms \<Rightarrow> (Ready (Some m), q\<lparr>held := ms\<rparr>)
        | [] \<Rightarrow> (if tx_alive q then Pending else Ready None, q)),
      mp_close = (\<lambda>q. q\<lparr>held := [], rx_alive := False\<rparr>),
      mp_hang_up = (\<lambda>q. q\<lparr>tx_alive := False\<rparr>)\<rparr>"

lemma list_mpsc_ok: "mpsc_ok list_mpsc id"
  by (auto simp: mpsc_ok_def list_mpsc_def split: list.splits)

section \<open>Commands and events\<close>

text \<open>\<open>'o\<close> and \<open>'l\<close> are the one-shot senders of the two requests.\<close>

datatype ('o, 'l) command =
    CmdDial string
  | CmdBeginBootstrap
  | CmdLookupPeer string
  | CmdAddKnownPeer string string
  | CmdAddBootNode string string
  | CmdPutRecord bytes bytes
  | CmdGetRecord bytes u8
  | CmdShutdown
  | CmdListenViaRelay string
  | CmdRegister string string
  | CmdUnregister string
  | CmdDiscover string string
  | CmdPublish string bytes
  | CmdSubscribe string
  | CmdUnsubscribe string
  | CmdGetConnectedPeers 'o
  | CmdGetConnectedPeersLen 'l

datatype 'h client_event = ClientMsgReceived 'h bytes

section \<open>Sending commands\<close>

text \<open>The node's handle on the loop is the command channel: \<open>?\<close> returns its error.\<close>

type_synonym ('o, 'l, 'q) sends = "'q \<Rightarrow> (('o, 'l) command + unit) \<times> 'q"

text \<open>\<open>f?; k\<close> and \<open>for x in xs { f(x)?; }\<close>\<close>

definition try_then ::
    "('o, 'l, 'q) sends \<Rightarrow> ('o, 'l, 'q) sends \<Rightarrow> ('o, 'l, 'q) sends" where
  "try_then f k q = (case f q of (Inl e, q1) \<Rightarrow> (Inl e, q1) | (Inr _, q1) \<Rightarrow> k q1)"

fun try_each ::
    "('b \<Rightarrow> ('o, 'l, 'q) sends) \<Rightarrow> 'b list \<Rightarrow> ('o, 'l, 'q) sends" where
  "try_each f [] q = (Inr (), q)"
| "try_each f (x # xs) q = (case f x q of (Inl e, q1) \<Rightarrow> (Inl e, q1) | (Inr _, q1) \<Rightarrow> try_each f xs q1)"

definition send_command ::
    "(('o, 'l) command, 'q) mpsc_api \<Rightarrow> ('o, 'l) command \<Rightarrow> ('o, 'l, 'q) sends" where
  "send_command C command q = unbounded_send C command q"

definition node_add_known_peer ::
    "(('o, 'l) command, 'q) mpsc_api \<Rightarrow> string \<Rightarrow> string \<Rightarrow> ('o, 'l, 'q) sends" where
  "node_add_known_peer C peer addr q = unbounded_send C (CmdAddKnownPeer peer addr) q"

definition node_add_bootstrap_node ::
    "(('o, 'l) command, 'q) mpsc_api \<Rightarrow> string \<Rightarrow> string \<Rightarrow> ('o, 'l, 'q) sends" where
  "node_add_bootstrap_node C peer addr q = unbounded_send C (CmdAddBootNode peer addr) q"

definition node_dial ::
    "(('o, 'l) command, 'q) mpsc_api \<Rightarrow> string \<Rightarrow> ('o, 'l, 'q) sends" where
  "node_dial C addr q = unbounded_send C (CmdDial addr) q"

definition node_begin_bootstrap ::
    "(('o, 'l) command, 'q) mpsc_api \<Rightarrow> ('o, 'l, 'q) sends" where
  "node_begin_bootstrap C q = unbounded_send C CmdBeginBootstrap q"

definition node_put_record ::
    "(('o, 'l) command, 'q) mpsc_api \<Rightarrow> bytes \<Rightarrow> bytes \<Rightarrow> ('o, 'l, 'q) sends" where
  "node_put_record C key val q = unbounded_send C (CmdPutRecord key val) q"

definition node_get_record ::
    "(('o, 'l) command, 'q) mpsc_api \<Rightarrow> bytes \<Rightarrow> u8 \<Rightarrow> ('o, 'l, 'q) sends" where
  "node_get_record C key retry q = unbounded_send C (CmdGetRecord key retry) q"

definition node_lookup_peer ::
    "(('o, 'l) command, 'q) mpsc_api \<Rightarrow> string \<Rightarrow> ('o, 'l, 'q) sends" where
  "node_lookup_peer C peer q = unbounded_send C (CmdLookupPeer peer) q"

definition node_connect_relay ::
    "(('o, 'l) command, 'q) mpsc_api \<Rightarrow> string \<Rightarrow> ('o, 'l, 'q) sends" where
  "node_connect_relay C addr q = unbounded_send C (CmdListenViaRelay addr) q"

text \<open>\<open>addr.clone().with(Protocol::P2p(*peer)).to_string()\<close>\<close>

definition point_text :: "('a, 'i) addr_lib \<Rightarrow> 'i \<times> 'a \<Rightarrow> string" where
  "point_text L pa = ma_show L (ma_with L (snd pa) (P2p (fst pa)))"

definition node_register ::
    "(('o, 'l) command, 'q) mpsc_api \<Rightarrow> ('a, 'i) addr_lib \<Rightarrow> ('a, 'i) node_config \<Rightarrow> string
      \<Rightarrow> ('o, 'l, 'q) sends" where
  "node_register C L config namespace q =
     try_each (\<lambda>pa. unbounded_send C (CmdRegister (point_text L pa) namespace))
       (config_of_rendezvous_points config) q"

definition node_discover ::
    "(('o, 'l) command, 'q) mpsc_api \<Rightarrow> ('a, 'i) addr_lib \<Rightarrow> ('a, 'i) node_config
      \<Rightarrow> ('o, 'l, 'q) sends" where
  "node_discover C L config q =
     try_each (\<lambda>(pa, namespace). unbounded_send C (CmdDiscover (point_text L pa) namespace))
       (zip (config_of_rendezvous_points config) (config_of_rendezvous_namespaces config)) q"

definition node_publish ::
    "(('o, 'l) command, 'q) mpsc_api \<Rightarrow> string \<Rightarrow> bytes \<Rightarrow> ('o, 'l, 'q) sends" where
  "node_publish C topic data q = unbounded_send C (CmdPublish topic data) q"

definition node_subscribe ::
    "(('o, 'l) command, 'q) mpsc_api \<Rightarrow> string \<Rightarrow> ('o, 'l, 'q) sends" where
  "node_subscribe C topic q = unbounded_send C (CmdSubscribe topic) q"

definition node_unsubscribe ::
    "(('o, 'l) command, 'q) mpsc_api \<Rightarrow> string \<Rightarrow> ('o, 'l, 'q) sends" where
  "node_unsubscribe C topic q = unbounded_send C (CmdUnsubscribe topic) q"

definition spin_up ::
    "(('o, 'l) command, 'q) mpsc_api \<Rightarrow> ('a, 'i) addr_lib \<Rightarrow> ('a, 'i) node_config
      \<Rightarrow> ('o, 'l, 'q) sends" where
  "spin_up C L config =
     try_then
       (if config_of_enable_relay config
        then try_each (\<lambda>pa. node_connect_relay C (point_text L pa)) (config_of_relay_nodes config)
        else Pair (Inr ()))
     (try_then
       (if config_of_enable_rendezvous config
        then try_then (try_each (\<lambda>pa. node_dial C (point_text L pa)) (config_of_rendezvous_points config))
          (try_then (try_each (node_register C L config) (config_of_rendezvous_namespaces config))
             (node_discover C L config))
        else Pair (Inr ()))
       (if config_of_enable_dht config then node_begin_bootstrap C else Pair (Inr ())))"

section \<open>What \<open>spin_up\<close> asks for\<close>

definition spin_up_commands ::
    "('a, 'i) addr_lib \<Rightarrow> ('a, 'i) node_config \<Rightarrow> ('o, 'l) command list" where
  "spin_up_commands L c =
     (if nc_enable_relay c then map (CmdListenViaRelay \<circ> point_text L) (nc_relay_nodes c) else []) @
     (if nc_enable_rendezvous c
      then map (CmdDial \<circ> point_text L) (nc_rendezvous_nodes c) @
        concat (map (\<lambda>ns. map (\<lambda>pa. CmdRegister (point_text L pa) ns) (nc_rendezvous_nodes c))
          (nc_rendezvous_namespaces c)) @
        map (\<lambda>(pa, ns). CmdDiscover (point_text L pa) ns)
          (zip (nc_rendezvous_nodes c) (nc_rendezvous_namespaces c))
      else []) @
     (if nc_enable_dht c then [CmdBeginBootstrap] else [])"

text \<open>Everything is one run of \<open>try_each\<close> over the commands.\<close>

lemma try_each_append: "try_then (try_each f xs) (try_each f ys) q = try_each f (xs @ ys) q"
  by (induction f xs q rule: try_each.induct) (auto simp: try_then_def split: prod.splits sum.splits)

lemma try_each_map: "try_each (\<lambda>x. f (g x)) xs q = try_each f (map g xs) q"
  by (induction xs arbitrary: q) (auto split: prod.splits sum.splits)

lemma try_each_concat: "try_each (\<lambda>x. try_each f (g x)) xs q = try_each f (concat (map g xs)) q"
proof (induction xs arbitrary: q)
  case (Cons x xs)
  then show ?case
    using try_each_append [of f "g x" "concat (map g xs)" q]
    by (auto simp: try_then_def split: prod.splits sum.splits)
qed simp

lemma try_each_one: "try_each f [x] q = f x q"
  by (auto split: prod.splits sum.splits)

text \<open>Each part of \<open>spin_up\<close> is such a run.\<close>

lemma spin_up_parts:
  "try_each (\<lambda>pa. node_connect_relay C (point_text L pa)) ps
     = try_each (unbounded_send C) (map (CmdListenViaRelay \<circ> point_text L) ps)"
  "try_each (\<lambda>pa. node_dial C (point_text L pa)) ps
     = try_each (unbounded_send C) (map (CmdDial \<circ> point_text L) ps)"
  "node_register C L config = (\<lambda>ns. try_each (unbounded_send C)
     (map (\<lambda>pa. CmdRegister (point_text L pa) ns) (nc_rendezvous_nodes config)))"
  "node_discover C L config = try_each (unbounded_send C) (map (\<lambda>(pa, ns). CmdDiscover (point_text L pa) ns)
     (zip (nc_rendezvous_nodes config) (nc_rendezvous_namespaces config)))"
  "node_begin_bootstrap C = try_each (unbounded_send C) [CmdBeginBootstrap]"
proof -
  have sends: "node_connect_relay C = (\<lambda>addr. unbounded_send C (CmdListenViaRelay addr))"
    "node_dial C = (\<lambda>addr. unbounded_send C (CmdDial addr))"
    by (simp_all add: fun_eq_iff node_connect_relay_def node_dial_def)
  have disc: "(\<lambda>(pa, ns). unbounded_send C (CmdDiscover (point_text L pa) ns))
      = (\<lambda>x. unbounded_send C ((\<lambda>(pa, ns). CmdDiscover (point_text L pa) ns) x))"
    by (simp add: fun_eq_iff)
  show "try_each (\<lambda>pa. node_connect_relay C (point_text L pa)) ps
     = try_each (unbounded_send C) (map (CmdListenViaRelay \<circ> point_text L) ps)"
    using try_each_map [of "unbounded_send C" "CmdListenViaRelay \<circ> point_text L"]
    by (simp add: fun_eq_iff sends)
  show "try_each (\<lambda>pa. node_dial C (point_text L pa)) ps
     = try_each (unbounded_send C) (map (CmdDial \<circ> point_text L) ps)"
    using try_each_map [of "unbounded_send C" "CmdDial \<circ> point_text L"]
    by (simp add: fun_eq_iff sends)
  show "node_register C L config = (\<lambda>ns. try_each (unbounded_send C)
     (map (\<lambda>pa. CmdRegister (point_text L pa) ns) (nc_rendezvous_nodes config)))"
    using try_each_map [of "unbounded_send C" "\<lambda>pa. CmdRegister (point_text L pa) ns" for ns]
    by (simp add: fun_eq_iff node_register_def config_getters)
  show "node_discover C L config = try_each (unbounded_send C) (map (\<lambda>(pa, ns). CmdDiscover (point_text L pa) ns)
     (zip (nc_rendezvous_nodes config) (nc_rendezvous_namespaces config)))"
    by (rule ext) (simp only: node_discover_def config_getters disc
        try_each_map [of "unbounded_send C" "\<lambda>(pa, ns). CmdDiscover (point_text L pa) ns"])
  show "node_begin_bootstrap C = try_each (unbounded_send C) [CmdBeginBootstrap]"
    by (rule ext) (simp only: node_begin_bootstrap_def try_each_one)
qed

lemma spin_up_try_each: "spin_up C L config q = try_each (unbounded_send C) (spin_up_commands L config) q"
proof -
  let ?run = "try_each (unbounded_send C)"
  have none: "Pair (Inr ()) = ?run []" by (simp add: fun_eq_iff)
  have app: "try_then (?run xs) (?run ys) = ?run (xs @ ys)" for xs ys
    by (rule ext) (rule try_each_append)
  have conc: "try_each (\<lambda>ns. ?run (g ns)) nss = ?run (concat (map g nss))" for g :: "string \<Rightarrow> _" and nss
    by (rule ext) (rule try_each_concat)
  have "spin_up C L config = ?run (spin_up_commands L config)"
    unfolding spin_up_def spin_up_commands_def config_getters spin_up_parts none conc app
      if_distrib [of ?run, symmetric] ..
  then show ?thesis by simp
qed

text \<open>
  C17: Starting up sends exactly the commands of the enabled parts, in order, and stops with the
  first command the closed channel refuses: a relay connection per relay, a dial per rendezvous
  point, a registration for every pair of a namespace and a point, but a discovery only for the
  points and the namespaces paired one with one, and the bootstrap last. So a pair of a point and
  a namespace at different positions is registered and never discovered.
\<close>

theorem spin_up_sends:
  fixes C :: "(('o, 'l) command, 'q) mpsc_api"
  assumes "mpsc_ok C see"
  shows "let sent = spin_up_commands L config :: ('o, 'l) command list in
    fst (spin_up C L config q) = (if rx_alive (see q) \<or> sent = [] then Inr () else Inl (hd sent)) \<and>
    see (snd (spin_up C L config q)) =
      (if rx_alive (see q) then (see q)\<lparr>held := held (see q) @ sent\<rparr> else see q) \<and>
    (nc_enable_rendezvous config \<longrightarrow>
      (CmdRegister point ns \<in> set sent \<longleftrightarrow>
         point \<in> point_text L ` set (nc_rendezvous_nodes config) \<and> ns \<in> set (nc_rendezvous_namespaces config)) \<and>
      (CmdDiscover point ns \<in> set sent \<longleftrightarrow>
         (\<exists>i < length (nc_rendezvous_nodes config). i < length (nc_rendezvous_namespaces config) \<and>
            point = point_text L (nc_rendezvous_nodes config ! i) \<and> ns = nc_rendezvous_namespaces config ! i)))"
  unfolding Let_def
proof (intro conjI impI)
  let ?sent = "spin_up_commands L config :: ('o, 'l) command list"
  have run: "fst (try_each (unbounded_send C) cs q) = (if rx_alive (see q) \<or> cs = [] then Inr () else Inl (hd cs)) \<and>
      see (snd (try_each (unbounded_send C) cs q)) =
        (if rx_alive (see q) then (see q)\<lparr>held := held (see q) @ cs\<rparr> else see q)" for cs q
  proof (induction cs arbitrary: q)
    case (Cons c cs)
    obtain r q1 where r: "unbounded_send C c q = (r, q1)" by force
    from unbounded_send_ok [OF assms(1), of c q] r Cons.IH [of q1] show ?case
      by (cases "rx_alive (see q)") auto
  qed simp
  show "fst (spin_up C L config q) = (if rx_alive (see q) \<or> ?sent = [] then Inr () else Inl (hd ?sent))"
    "see (snd (spin_up C L config q)) =
      (if rx_alive (see q) then (see q)\<lparr>held := held (see q) @ ?sent\<rparr> else see q)"
    unfolding spin_up_try_each using run by blast+
  assume on: "nc_enable_rendezvous config"
  show "CmdRegister point ns \<in> set ?sent \<longleftrightarrow>
      point \<in> point_text L ` set (nc_rendezvous_nodes config) \<and> ns \<in> set (nc_rendezvous_namespaces config)"
    using on by (auto simp: spin_up_commands_def)
  show "CmdDiscover point ns \<in> set ?sent \<longleftrightarrow>
      (\<exists>i < length (nc_rendezvous_nodes config). i < length (nc_rendezvous_namespaces config) \<and>
         point = point_text L (nc_rendezvous_nodes config ! i) \<and> ns = nc_rendezvous_namespaces config ! i)"
    using on by (auto simp: spin_up_commands_def set_zip)
qed

text \<open>One rendezvous point and two namespaces: the second is registered, not discovered.\<close>

definition sample_node_lib :: "(string, nat) addr_lib" where
  "sample_node_lib =
     \<lparr>ma_parse = Some, ma_show = (\<lambda>a. a), ma_empty = [], ma_with = (\<lambda>a p. a @ ''/p2p''),
      ma_pop = (\<lambda>a. (None, a)), ma_iter = (\<lambda>a. []), ma_ends_with = (\<lambda>a b. False),
      pid_base58 = (\<lambda>i. []), pid_parse = (\<lambda>t. Some 0)\<rparr>"

definition sample_node_config :: "(string, nat) node_config" where
  "sample_node_config = node_config_default\<lparr>nc_enable_rendezvous := True,
     nc_rendezvous_nodes := [(1, ''r'')], nc_rendezvous_namespaces := [''a'', ''b'']\<rparr>"

lemma spin_up_sends_witness:
  "held (snd (spin_up (list_mpsc :: ((unit, unit) command, (unit, unit) command contents) mpsc_api)
       sample_node_lib sample_node_config \<lparr>held = [], rx_alive = True, tx_alive = True\<rparr>))
     = [CmdDial ''r/p2p'', CmdRegister ''r/p2p'' ''a'', CmdRegister ''r/p2p'' ''b'', CmdDiscover ''r/p2p'' ''a'']"
  using spin_up_sends [OF list_mpsc_ok, of sample_node_lib sample_node_config
      "\<lparr>held = [], rx_alive = True, tx_alive = True\<rparr> :: (unit, unit) command contents" "''r/p2p''" "''b''"]
  by (simp add: spin_up_commands_def sample_node_config_def node_config_default_def sample_node_lib_def point_text_def)

end
