(* ===== verification/NodeInner.thy ===== *)
theory NodeInner
  imports NodeApi Gossip Dht Rendezvous MdnsBehaviour
begin

text \<open>
  \<open>src/node.rs\<close>, \<open>NodeInner\<close>: the handlers of the event loop, which compose the behaviours.
  libp2p's \<open>Swarm\<close> drives the behaviours: it is a record of the node's behaviour, which the
  handlers reach by \<open>behaviour_mut\<close>, and the rest; its operations, which may change both, are
  the fields of a \<open>node_api\<close> over the swarm \<open>'s\<close>. The types of the definitions are inferred, for
  the operations they call determine them.
\<close>

section \<open>State\<close>

text \<open>\<open>NodeBehaviour\<close> of \<open>src/behaviours.rs\<close>: an \<open>option\<close> for every \<open>Toggle\<close>.\<close>

record ('id, 'gb, 'mb, 'rb, 'db, 'dc, 're) node_behaviour =
  nb_identify :: 'id
  nb_gossip :: 'gb
  nb_mdns :: "'mb option"
  nb_rdvz :: "'rb option"
  nb_dht :: "'db option"
  nb_dcutr :: "'dc option"
  nb_relay :: "'re option"

record ('b, 'w) swarm =
  behaviour :: 'b
  sw_world :: 'w

record ('s, 'a) node_inner =
  swarm :: 's
  dialing_relays :: "'a set"

section \<open>The swarm's events and operations\<close>

text \<open>
  What the handlers read of the events: of a connection that is established the address if the
  node dialed, of one that is closed whether it was relayed and its remote address, of a hole
  punch the peer and whether it succeeded.
\<close>

datatype 'a identify_event = IdentifySent | IdentifyReceived 'a | OtherIdentifyEvent

datatype ('i, 'a, 'h, 'n) node_behaviour_event =
    NbIdentify "'a identify_event"
  | NbGossip "'h gossip_event"
  | NbMdns "('i, 'a) mdns_event"
  | NbRdvz "('i, 'a, 'n) rdvz_event"
  | NbDht dht_event
  | NbDcutr 'i bool
  | NbOther

datatype ('i, 'a, 'h, 'n) swarm_event =
    SwBehaviour "('i, 'a, 'h, 'n) node_behaviour_event"
  | SwNewListenAddr 'a
  | SwConnectionEstablished "'a option"
  | SwConnectionClosed bool 'a
  | SwDialing
  | OtherSwarmEvent

text \<open>
  \<open>sw_next\<close> is the swarm's stream: \<open>None\<close> while nothing happens. \<open>sw_next_before\<close> races it with
  a timer: \<open>None\<close> when the instant comes first. \<open>na_order\<close> is the order in which a \<open>HashSet\<close>
  is iterated.
\<close>

record ('s, 'g, 'i, 'h, 'a, 'x, 'r, 'd, 'q, 'c, 'k, 't, 'n, 'co, 'e) node_api =
  na_addr :: "('a, 'i) addr_lib"
  na_gossip :: "('g, 'i, 'h, 'a, 'x, 'r) gossip_api"
  na_kad :: "('d, 'q, 'i, 'a, 'x, 'r, 'c) kad_api"
  na_rdvz :: "('k, 't, 'i, 'a, 'n, 'co, 'x, 'r, 'e) rdvz_api"
  sw_dial :: "'a \<Rightarrow> 's \<Rightarrow> bool \<times> 's"
  sw_listen_on :: "'a \<Rightarrow> 's \<Rightarrow> bool \<times> 's"
  sw_add_external_address :: "'a \<Rightarrow> 's \<Rightarrow> 's"
  sw_now :: "'s \<Rightarrow> instant \<times> 's"
  sw_next :: "'s \<Rightarrow> ('i, 'a, 'h, 'n) swarm_event option \<times> 's"
  sw_next_before :: "instant \<Rightarrow> 's \<Rightarrow> ('i, 'a, 'h, 'n) swarm_event option \<times> 's"
  na_order :: "('i \<times> 'a) set \<Rightarrow> ('i \<times> 'a) list"

text \<open>The errors that \<open>?\<close> returns from the handlers.\<close>

datatype node_error =
    InvalidMultiaddr
  | InvalidPeerId
  | InvalidNamespace
  | DialFailed
  | ListenFailed
  | TimedOut
  | ClientGone

section \<open>The parts of the behaviour\<close>

definition on_gossip where
  "on_gossip f st =
     st\<lparr>swarm := (swarm st)\<lparr>behaviour := (behaviour (swarm st))\<lparr>nb_gossip := f (nb_gossip (behaviour (swarm st)))\<rparr>\<rparr>\<rparr>"

definition on_dht where
  "on_dht f st =
     st\<lparr>swarm := (swarm st)\<lparr>behaviour := (behaviour (swarm st))\<lparr>nb_dht := map_option f (nb_dht (behaviour (swarm st)))\<rparr>\<rparr>\<rparr>"

text \<open>Of the rendezvous behaviour the operations can fail: \<open>?\<close> ends the handler.\<close>

definition on_rdvz where
  "on_rdvz f st =
     (case nb_rdvz (behaviour (swarm st)) of
        None \<Rightarrow> (Inr (), st)
      | Some b \<Rightarrow>
          (let (r, b1) = f b
           in (case r of Inl _ \<Rightarrow> Inl InvalidNamespace | Inr _ \<Rightarrow> Inr (),
               st\<lparr>swarm := (swarm st)\<lparr>behaviour := (behaviour (swarm st))\<lparr>nb_rdvz := Some b1\<rparr>\<rparr>\<rparr>)))"

definition swarm_dial where
  "swarm_dial A addr st =
     (let (ok, sw) = sw_dial A addr (swarm st)
      in (if ok then Inr () else Inl DialFailed, st\<lparr>swarm := sw\<rparr>))"

definition add_external_address where
  "add_external_address A addr st = st\<lparr>swarm := sw_add_external_address A addr (swarm st)\<rparr>"

text \<open>\<open>src/utils.rs\<close>\<close>

definition is_loopback :: "('a, 'i) addr_lib \<Rightarrow> 'a \<Rightarrow> bool" where
  "is_loopback L addr = list_ex (\<lambda>p. p = Ip4 0x7F000001) (ma_iter L addr)"

section \<open>Listening\<close>

text \<open>\<open>build_multiaddr!(Ip4([0, 0, 0, 0]), Tcp(0u16))\<close>\<close>

definition any_tcp :: "('a, 'i) addr_lib \<Rightarrow> 'a" where
  "any_tcp L = ma_with L (ma_with L (ma_empty L) (Ip4 0)) (Tcp 0)"

text \<open>Every round of the loop starts a new sleep of a second.\<close>

definition note_listen_addr where
  "note_listen_addr A event st =
     (case event of
        SwNewListenAddr address \<Rightarrow>
          if \<not> is_loopback (na_addr A) address then add_external_address A address st else st
      | _ \<Rightarrow> st)"

partial_function (option) listen_loop where
  "listen_loop A st =
     (let (now, sw) = sw_now A (swarm st)
      in (case sw_next_before A (now + nanos_per_sec) sw of
            (None, sw1) \<Rightarrow> Some (st\<lparr>swarm := sw1\<rparr>)
          | (Some event, sw1) \<Rightarrow> listen_loop A (note_listen_addr A event (st\<lparr>swarm := sw1\<rparr>))))"

definition start_listen where
  "start_listen A st =
     (case sw_listen_on A (any_tcp (na_addr A)) (swarm st) of
        (False, sw) \<Rightarrow> Some (Inl ListenFailed, st\<lparr>swarm := sw\<rparr>)
      | (True, sw) \<Rightarrow> map_option (Pair (Inr ())) (listen_loop A (st\<lparr>swarm := sw\<rparr>)))"

section \<open>Relays\<close>

text \<open>
  The loop under the timeout of four seconds: \<open>True\<close> when both addresses are exchanged,
  \<open>False\<close> when the time is over. It takes every event of the swarm.
\<close>

partial_function (option) await_relay where
  "await_relay A till learned told_relay st =
     (case sw_next_before A till (swarm st) of
        (None, sw) \<Rightarrow> Some (False, st\<lparr>swarm := sw\<rparr>)
      | (Some event, sw) \<Rightarrow>
          (let st1 = st\<lparr>swarm := sw\<rparr>;
               (learned1, told_relay1, st2) =
                 (case event of
                    SwBehaviour (NbIdentify IdentifySent) \<Rightarrow> (learned, True, st1)
                  | SwBehaviour (NbIdentify (IdentifyReceived observed_addr)) \<Rightarrow>
                      (True, told_relay, add_external_address A observed_addr st1)
                  | _ \<Rightarrow> (learned, told_relay, st1))
           in if learned1 \<and> told_relay1 then Some (True, st2) else await_relay A till learned1 told_relay1 st2))"

definition handle_listen_via_relay where
  "handle_listen_via_relay A address st =
     (case swarm_dial A address st of
        (Inl e, st1) \<Rightarrow> Some (Inl e, st1)
      | (Inr _, st1) \<Rightarrow>
          (let (now, sw) = sw_now A (swarm st1)
           in Option.bind (await_relay A (now + 4 * nanos_per_sec) False False (st1\<lparr>swarm := sw\<rparr>))
                (\<lambda>(connected, st2).
                   if \<not> connected
                   then Some (Inl TimedOut, st2\<lparr>dialing_relays := insert address (dialing_relays st2)\<rparr>)
                   else (let new_address = ma_with (na_addr A) address P2pCircuit
                         in (case sw_listen_on A new_address (swarm st2) of
                               (False, sw1) \<Rightarrow> Some (Inl ListenFailed, st2\<lparr>swarm := sw1\<rparr>)
                             | (True, sw1) \<Rightarrow>
                                 Some (Inr (), add_external_address A new_address (st2\<lparr>swarm := sw1\<rparr>)))))))"

section \<open>Commands\<close>

text \<open>\<open>Ok(false)\<close> after a call whose error \<open>?\<close> returns.\<close>

definition carry_on :: "(node_error + unit) \<times> 'st \<Rightarrow> (node_error + bool) \<times> 'st" where
  "carry_on r = (case r of (Inl e, st) \<Rightarrow> (Inl e, st) | (Inr _, st) \<Rightarrow> (Inr False, st))"

definition with_multiaddr where
  "with_multiaddr A text st k =
     (case ma_parse (na_addr A) text of None \<Rightarrow> (Inl InvalidMultiaddr, st) | Some addr \<Rightarrow> k addr)"

definition with_peer_id where
  "with_peer_id A text st k =
     (case pid_parse (na_addr A) text of None \<Rightarrow> (Inl InvalidPeerId, st) | Some peer \<Rightarrow> k peer)"

definition handle_command where
  "handle_command A command st =
     (let dht_on = nb_dht (behaviour (swarm st)) \<noteq> None;
          rdvz_on = nb_rdvz (behaviour (swarm st)) \<noteq> None
      in (case command of
        CmdDial addr \<Rightarrow>
          Some (carry_on (with_multiaddr A addr st (\<lambda>a. swarm_dial A a st)))
      | CmdBeginBootstrap \<Rightarrow> Some (Inr False, on_dht dht_begin_bootstrap st)
      | CmdLookupPeer _ \<Rightarrow> Some (Inr False, st)
      | CmdAddKnownPeer peer address \<Rightarrow>
          Some (carry_on
            (if dht_on
             then with_peer_id A peer st (\<lambda>p. with_multiaddr A address st (\<lambda>a.
                    (Inr (), on_dht (dht_add_address (na_kad A) p a) st)))
             else (Inr (), st)))
      | CmdAddBootNode peer address \<Rightarrow>
          Some (carry_on
            (if dht_on
             then with_peer_id A peer st (\<lambda>p. with_multiaddr A address st (\<lambda>a.
                    (Inr (), on_dht (add_bootnodes p a) st)))
             else (Inr (), st)))
      | CmdPutRecord key val \<Rightarrow>
          Some (Inr False, on_dht (put_record (na_kad A)
            \<lparr>pq_backoff = backoff_default, pq_key = key, pq_value = val\<rparr>) st)
      | CmdGetRecord key retry \<Rightarrow>
          Some (Inr False, on_dht (get_record (na_kad A) key backoff_default retry) st)
      | CmdShutdown \<Rightarrow> Some (Inr True, st)
      | CmdListenViaRelay address \<Rightarrow>
          (case ma_parse (na_addr A) address of
             None \<Rightarrow> Some (Inl InvalidMultiaddr, st)
           | Some a \<Rightarrow> map_option (\<lambda>(_, st1). (Inr False, st1)) (handle_listen_via_relay A a st))
      | CmdRegister point namespace \<Rightarrow>
          Some (carry_on
            (if rdvz_on
             then with_multiaddr A point st (\<lambda>a. on_rdvz (rdvz_register (na_rdvz A) a namespace) st)
             else (Inr (), st)))
      | CmdUnregister namespace \<Rightarrow>
          Some (carry_on (on_rdvz (rdvz_unregister (na_rdvz A) namespace) st))
      | CmdDiscover point namespace \<Rightarrow>
          Some (carry_on
            (if rdvz_on
             then with_multiaddr A point st (\<lambda>a. on_rdvz (rdvz_discover (na_rdvz A) a namespace) st)
             else (Inr (), st)))
      | CmdPublish topic data \<Rightarrow> Some (Inr False, on_gossip (publish (na_gossip A) topic data) st)
      | CmdSubscribe topic \<Rightarrow> Some (Inr False, on_gossip (subscribe (na_gossip A) topic) st)
      | CmdUnsubscribe topic \<Rightarrow> Some (Inr False, on_gossip (unsubscribe (na_gossip A) topic) st)
      | CmdGetConnectedPeers _ \<Rightarrow> Some (Inr False, st)
      | CmdGetConnectedPeersLen _ \<Rightarrow> Some (Inr False, st)))"

section \<open>Events\<close>

definition with_p2p :: "('a, 'i) addr_lib \<Rightarrow> 'i \<Rightarrow> 'a \<Rightarrow> 'a" where
  "with_p2p L peer addr =
     (if \<not> ma_ends_with L addr (ma_with L (ma_empty L) (P2p peer)) then ma_with L addr (P2p peer) else addr)"

fun dial_discovered where
  "dial_discovered A [] st = (Inr (), st)"
| "dial_discovered A ((peer, addr) # rest) st =
     (case swarm_dial A (with_p2p (na_addr A) peer addr) st of
        (Inl e, st1) \<Rightarrow> (Inl e, st1)
      | (Inr _, st1) \<Rightarrow> dial_discovered A rest st1)"

text \<open>The event channel \<open>q\<close> to the client is the last argument and the last result.\<close>

definition handle_event where
  "handle_event (A :: (_, 'g, 'i, 'h, 'a, 'x, 'r, 'd, 'q, 'c, 'k, 't, 'n, 'co, 'e) node_api) E
      (event :: ('i, 'a, 'h, 'n) node_behaviour_event) st q =
     (case event of
        NbGossip (MsgReceived topic contents) \<Rightarrow>
          (case unbounded_send E (ClientMsgReceived topic contents) q of
             (Inl _, q1) \<Rightarrow> (Inl ClientGone, st, q1)
           | (Inr _, q1) \<Rightarrow> (Inr (), st, q1))
      | NbMdns (MdnsDiscovered found) \<Rightarrow>
          (Inr (), on_gossip (add_explicit_peers (na_gossip A) (map fst found)) st, q)
      | NbRdvz (Discovered discovered) \<Rightarrow>
          (case dial_discovered A (na_order A discovered) st of (r, st1) \<Rightarrow> (r, st1, q))
      | NbDcutr remote_peer_id ok \<Rightarrow>
          (Inr (), if ok then on_gossip (add_explicit_peers (na_gossip A) [remote_peer_id]) st else st, q)
      | _ \<Rightarrow> (Inr (), st, q))"

definition handle_swarm_event where
  "handle_swarm_event (A :: (_, 'g, 'i, 'h, 'a, 'x, 'r, 'd, 'q, 'c, 'k, 't, 'n, 'co, 'e) node_api) E
      (event :: ('i, 'a, 'h, 'n) swarm_event) st q =
     (case event of
        SwBehaviour ev \<Rightarrow> handle_event A E ev st q
      | SwNewListenAddr address \<Rightarrow>
          (Inr (), if \<not> is_loopback (na_addr A) address then add_external_address A address st else st, q)
      | SwConnectionEstablished (Some address) \<Rightarrow>
          (Inr (), st\<lparr>dialing_relays := dialing_relays st - {address}\<rparr>, q)
      | SwConnectionClosed relayed remote \<Rightarrow>
          (Inr (), if relayed then snd (swarm_dial A remote st) else st, q)
      | _ \<Rightarrow> (Inr (), st, q))"

section \<open>Listening waits for a silent second\<close>

text \<open>The events the loop takes until a second passes without one.\<close>

inductive listen_trace for A where
  silent: "sw_now A (swarm st) = (now, sw) \<Longrightarrow> sw_next_before A (now + nanos_per_sec) sw = (None, sw1) \<Longrightarrow>
    listen_trace A st [] (st\<lparr>swarm := sw1\<rparr>)"
| heard: "sw_now A (swarm st) = (now, sw) \<Longrightarrow> sw_next_before A (now + nanos_per_sec) sw = (Some event, sw1) \<Longrightarrow>
    listen_trace A (note_listen_addr A event (st\<lparr>swarm := sw1\<rparr>)) events st' \<Longrightarrow>
    listen_trace A st (event # events) st'"

lemma listen_trace_loop: "listen_trace A st events st' \<Longrightarrow> listen_loop A st = Some st'"
  by (induction rule: listen_trace.induct) (subst listen_loop.simps, simp)+

lemma listen_loop_trace: "listen_loop A st = Some st' \<Longrightarrow> \<exists>events. listen_trace A st events st'"
proof -
  have "api = A \<longrightarrow> (\<exists>events. listen_trace A st events st')" if "listen_loop api st = Some st'" for api st st'
  proof (rule listen_loop.raw_induct [where P = "\<lambda>api st st'. api = A \<longrightarrow> (\<exists>events. listen_trace A st events st')",
        OF _ that], intro impI)
    fix f api st st'
    assume IH: "\<And>api st st'. f api st = Some st' \<Longrightarrow> api = A \<longrightarrow> (\<exists>events. listen_trace A st events st')"
      and body: "(let (now, sw) = sw_now api (swarm st)
        in (case sw_next_before api (now + nanos_per_sec) sw of (None, sw1) \<Rightarrow> Some (st\<lparr>swarm := sw1\<rparr>)
          | (Some event, sw1) \<Rightarrow> f api (note_listen_addr api event (st\<lparr>swarm := sw1\<rparr>)))) = Some st'"
      and api: "api = A"
    obtain now sw o1 sw1 where now: "sw_now A (swarm st) = (now, sw)"
      and o1: "sw_next_before A (now + nanos_per_sec) sw = (o1, sw1)" by (metis prod.exhaust)
    show "\<exists>events. listen_trace A st events st'"
    proof (cases o1)
      case None
      with now o1 body api have "st' = st\<lparr>swarm := sw1\<rparr>" by simp
      with silent [OF now] o1 None show ?thesis by blast
    next
      case (Some event)
      with now o1 body api have "f A (note_listen_addr A event (st\<lparr>swarm := sw1\<rparr>)) = Some st'" by simp
      with IH heard [OF now] o1 Some show ?thesis by blast
    qed
  qed
  then show "listen_loop A st = Some st' \<Longrightarrow> \<exists>events. listen_trace A st events st'" by blast
qed

text \<open>
  The external addresses as an observer of the swarm sees them: only \<open>add_external_address\<close>
  of the calls of the listening loop adds one.
\<close>

definition observes_external where
  "observes_external A external \<longleftrightarrow>
     (\<forall>a s. external (sw_add_external_address A a s) = insert a (external s)) \<and>
     (\<forall>s. external (snd (sw_now A s)) = external s) \<and>
     (\<forall>t s. external (snd (sw_next_before A t s)) = external s) \<and>
     (\<forall>a s. external (snd (sw_listen_on A a s)) = external s)"

definition listened where
  "listened L events = {a. SwNewListenAddr a \<in> set events \<and> \<not> is_loopback L a}"

lemma listen_trace_external:
  "listen_trace A st events st' \<Longrightarrow> observes_external A external \<Longrightarrow>
     external (swarm st') = external (swarm st) \<union> listened (na_addr A) events"
proof (induction rule: listen_trace.induct)
  case (silent st now sw sw1)
  then have "external sw = external (swarm st)" "external sw1 = external sw"
    unfolding observes_external_def by (metis snd_conv)+
  then show ?case by (simp add: listened_def)
next
  case (heard st now sw event sw1 events st')
  then have "external sw = external (swarm st)" "external sw1 = external sw"
    unfolding observes_external_def by (metis snd_conv)+
  moreover have "external (swarm (note_listen_addr A event (st\<lparr>swarm := sw1\<rparr>))) =
      external sw1 \<union> listened (na_addr A) [event]"
    using heard.prems by (auto simp: note_listen_addr_def add_external_address_def observes_external_def
        listened_def split: swarm_event.splits)
  ultimately show ?case using heard.IH [OF heard.prems] by (auto simp: listened_def)
qed

text \<open>
  C24: Starting to listen takes the swarm's events until a second passes without one, and then the
  node's external addresses are those it had and those the swarm listens on, but not the ones
  with \<open>127.0.0.1\<close> in them. It fails only when the swarm cannot listen.
\<close>

theorem start_listen_external:
  assumes "observes_external A external" "start_listen A st = Some (r, st')"
  shows "(r = Inl ListenFailed \<and> \<not> fst (sw_listen_on A (any_tcp (na_addr A)) (swarm st))) \<or>
    (\<exists>events. r = Inr () \<and>
       listen_trace A (st\<lparr>swarm := snd (sw_listen_on A (any_tcp (na_addr A)) (swarm st))\<rparr>) events st' \<and>
       external (swarm st') = external (swarm st) \<union>
         {a. SwNewListenAddr a \<in> set events \<and> Ip4 0x7F000001 \<notin> set (ma_iter (na_addr A) a)})"
proof -
  obtain ok sw where ok: "sw_listen_on A (any_tcp (na_addr A)) (swarm st) = (ok, sw)" by force
  then have sw: "external sw = external (swarm st)"
    using assms(1) unfolding observes_external_def by (metis snd_conv)
  show ?thesis
  proof (cases ok)
    case True
    with ok assms(2) obtain "r = Inr ()" "listen_loop A (st\<lparr>swarm := sw\<rparr>) = Some st'"
      by (auto simp: start_listen_def)
    moreover from listen_loop_trace [OF this(2)] obtain events where "listen_trace A (st\<lparr>swarm := sw\<rparr>) events st'" ..
    ultimately show ?thesis using listen_trace_external [OF _ assms(1)] sw ok
      by (fastforce simp: listened_def is_loopback_def list_ex_iff)
  qed (use ok assms(2) in \<open>simp add: start_listen_def\<close>)
qed

text \<open>
  C25: Starting the node may not end: the wait for a silent second starts again with every event.
  So as long as the swarm, whenever the clock is read, has an event within the next second,
  \<open>start_listen\<close> does not return, however late it has become, and no node exists.
\<close>

theorem busy_swarm_never_starts:
  assumes "\<forall>s now sw. sw_now A s = (now, sw) \<longrightarrow> fst (sw_next_before A (now + nanos_per_sec) sw) \<noteq> None"
    and "fst (sw_listen_on A (any_tcp (na_addr A)) (swarm st))"
  shows "start_listen A st = None"
proof -
  have "\<not> listen_trace A st events st'" for st events st'
  proof
    assume "listen_trace A st events st'"
    then show False using assms(1) by (induction rule: listen_trace.induct) (metis fst_conv, simp)
  qed
  then have "listen_loop A st = None" for st using listen_loop_trace [of A st] by (cases "listen_loop A st") auto
  then show ?thesis using assms(2) by (auto simp: start_listen_def split_beta)
qed

section \<open>Waiting for a relay loses events\<close>

text \<open>
  C21: While a command waits for a relay, an event of the node's behaviours other than identify's
  is taken from the swarm and dropped: the wait goes on as if the swarm had not had it. For a
  gossip message this is a loss, for the loop's own handler puts the same event into the client's
  channel as long as the client receives.
\<close>

theorem relay_wait_drops_events:
  assumes "mpsc_ok E see" "sw_next_before A till (swarm st) = (Some (SwBehaviour ev), sw)"
    and "\<nexists>i. ev = NbIdentify i" "\<not> (learned \<and> relay_told)"
  shows "await_relay A till learned relay_told st = await_relay A till learned relay_told (st\<lparr>swarm := sw\<rparr>) \<and>
    (\<forall>topic data. ev = NbGossip (MsgReceived topic data) \<longrightarrow> rx_alive (see q) \<longrightarrow>
      held (see (snd (snd (handle_swarm_event A E (SwBehaviour ev) (st\<lparr>swarm := sw\<rparr>) q))))
        = held (see q) @ [ClientMsgReceived topic data])"
proof
  have "(case SwBehaviour ev of
      SwBehaviour (NbIdentify IdentifySent) \<Rightarrow> (learned, True, st\<lparr>swarm := sw\<rparr>)
    | SwBehaviour (NbIdentify (IdentifyReceived observed_addr)) \<Rightarrow>
        (True, relay_told, add_external_address A observed_addr (st\<lparr>swarm := sw\<rparr>))
    | _ \<Rightarrow> (learned, relay_told, st\<lparr>swarm := sw\<rparr>)) = (learned, relay_told, st\<lparr>swarm := sw\<rparr>)"
    using assms(3) by (cases ev) auto
  then show "await_relay A till learned relay_told st = await_relay A till learned relay_told (st\<lparr>swarm := sw\<rparr>)"
    using assms(4) by (cases learned; subst await_relay.simps; simp add: assms(2) Let_def)
  show "\<forall>topic data. ev = NbGossip (MsgReceived topic data) \<longrightarrow> rx_alive (see q) \<longrightarrow>
      held (see (snd (snd (handle_swarm_event A E (SwBehaviour ev) (st\<lparr>swarm := sw\<rparr>) q))))
        = held (see q) @ [ClientMsgReceived topic data]"
  proof (intro allI impI)
    fix topic data
    assume "ev = NbGossip (MsgReceived topic data)" "rx_alive (see q)"
    moreover obtain r q1 where "unbounded_send E (ClientMsgReceived topic data) q = (r, q1)" by force
    ultimately show "held (see (snd (snd (handle_swarm_event A E (SwBehaviour ev) (st\<lparr>swarm := sw\<rparr>) q))))
        = held (see q) @ [ClientMsgReceived topic data]"
      using unbounded_send_ok [OF assms(1), of "ClientMsgReceived topic data" q]
      by (cases r) (simp_all add: handle_swarm_event_def handle_event_def)
  qed
qed

section \<open>Dialing what a rendezvous point discovers\<close>


text \<open>The addresses dialed and whether the swarm took them, as an observer of the swarm sees them.\<close>

definition observes_dials where
  "observes_dials A dialed \<longleftrightarrow>
     (\<forall>a s. dialed (snd (sw_dial A a s)) = dialed s @ [(a, fst (sw_dial A a s))])"





section \<open>Discovered nodes become explicit peers\<close>

text \<open>The event loop's handling of a sequence of mDNS events.\<close>

fun handle_mdns_events where
  "handle_mdns_events A E [] st q = (st, q)"
| "handle_mdns_events A E (e # es) st q =
     (case handle_swarm_event A E (SwBehaviour (NbMdns e)) st q of
        (_, st1, q1) \<Rightarrow> handle_mdns_events A E es st1 q1)"

text \<open>gossipsub's explicit peers, as an observer sees them.\<close>

definition observes_explicit where
  "observes_explicit G explicit \<longleftrightarrow> (\<forall>p g. explicit (gs_add_explicit_peer G p g) = insert p (explicit g))"

lemma add_explicit_peers_set:
  "observes_explicit G explicit \<Longrightarrow> explicit (gossip (add_explicit_peers G ps b)) = explicit (gossip b) \<union> set ps"
  by (induction G ps b rule: add_explicit_peers.induct) (auto simp: observes_explicit_def)

definition announced :: "('i, 'a) mdns_event list \<Rightarrow> 'i set" where
  "announced es = (\<Union>ds \<in> {ds. MdnsDiscovered ds \<in> set es}. fst ` set ds)"

lemma announced_simps [simp]:
  "announced [] = {}"
  "announced (MdnsDiscovered ds # es) = fst ` set ds \<union> announced es"
  "announced (MdnsExpired ds # es) = announced es"
  by (auto simp: announced_def)

lemma handle_mdns_events_explicit:
  "observes_explicit (na_gossip A) explicit \<Longrightarrow> handle_mdns_events A E es st q = (st', q') \<Longrightarrow>
     explicit (gossip (nb_gossip (behaviour (swarm st')))) =
       explicit (gossip (nb_gossip (behaviour (swarm st)))) \<union> announced es"
proof (induction es arbitrary: st q)
  case (Cons e es)
  show ?case
  proof (cases e)
    case (MdnsDiscovered ds)
    with Cons.prems have "handle_mdns_events A E es (on_gossip (add_explicit_peers (na_gossip A) (map fst ds)) st) q = (st', q')"
      by (simp add: handle_swarm_event_def handle_event_def)
    from Cons.IH [OF Cons.prems(1) this] show ?thesis
      by (simp add: MdnsDiscovered on_gossip_def add_explicit_peers_set [OF Cons.prems(1)] Un_assoc)
  next
    case (MdnsExpired ds)
    with Cons show ?thesis by (simp add: handle_swarm_event_def handle_event_def)
  qed
qed simp

lemma believes_announced: "believes K es = Some K' \<Longrightarrow> fst ` K' \<subseteq> fst ` K \<union> announced es"
proof (induction K es rule: believes.induct)
  case (2 K ds es)
  then have "believes (K \<union> set ds) es = Some K'" by (simp split: if_splits)
  with 2 show ?case by (auto split: if_splits)
next
  case (3 K ds es)
  then have "fst ` K' \<subseteq> fst ` (K - set ds) \<union> announced es" by (simp split: if_splits)
  then show ?case by auto
qed simp

text \<open>
  C11: When the event loop handles every event that the mDNS behaviour hands over from its start
  on, the peers of all the nodes the behaviour holds, and has told of, are explicit peers of
  gossipsub. They are all the peers ever announced: one whose every address has expired stays
  an explicit peer.
\<close>

theorem discovered_nodes_are_explicit_peers:
  assumes "mdns_new M config me tx w0 = Ret (Some b0, w1)" "mdns_run M cs (b0, w1) = Some (es, b, w)"
    and "mdns_queue b = []" "observes_explicit (na_gossip A) explicit"
    and "handle_mdns_events A E es st q = (st', q')"
  shows "fst ` set (node_keys (discovered_nodes b)) \<subseteq> explicit (gossip (nb_gossip (behaviour (swarm st')))) \<and>
    explicit (gossip (nb_gossip (behaviour (swarm st')))) =
      explicit (gossip (nb_gossip (behaviour (swarm st)))) \<union> announced es \<and> q' = q"
proof -
  have "consistent {} b0"
    using assms(1) by (auto simp: mdns_new_def consistent_def split: if_splits prod.splits bool.splits)
  from mdns_run_believes [OF assms(2) this] assms(3)
  have "believes {} es = Some (set (node_keys (discovered_nodes b)))" by simp
  from believes_announced [OF this] have "fst ` set (node_keys (discovered_nodes b)) \<subseteq> announced es" by simp
  moreover have "q' = q" using assms(5)
  proof (induction es arbitrary: st)
    case (Cons e es)
    then show ?case by (cases e) (auto simp: handle_swarm_event_def handle_event_def)
  qed simp
  ultimately show ?thesis using handle_mdns_events_explicit [OF assms(4,5)] by auto
qed

section \<open>An example\<close>

text \<open>
  The world of the swarm is its events to come, its external addresses and the addresses dialed;
  gossipsub is the set of its explicit peers.
\<close>

type_synonym sample_gossip_bhv = "(nat set, nat, string) gossip_bhv"

type_synonym sample_swarm =
  "((unit, sample_gossip_bhv, unit, (unit, unit, nat, nat protocol list, string, unit) rdvz_bhv,
     (unit, nat, nat, nat protocol list, unit) dht_bhv, unit, unit) node_behaviour,
    (nat, nat protocol list, string, string) swarm_event list \<times> nat protocol list set \<times> nat protocol list list) swarm"

definition sample_node_gossip :: "(nat set, nat, string, nat protocol list, unit, unit) gossip_api" where
  "sample_node_gossip =
     \<lparr>gs_publish = (\<lambda>topic data g. (True, g)), gs_subscribe = (\<lambda>topic g. (True, g)),
      gs_unsubscribe = (\<lambda>topic g. (True, g)), gs_add_explicit_peer = insert,
      gs_poll = (\<lambda>g. (Pending, g)), gs_now = (\<lambda>g. (0, g)), gs_callback = (\<lambda>cb g. ((), g)),
      gs_on_swarm_event = (\<lambda>ev g. g)\<rparr>"

definition sample_node_kad :: "(unit, nat, nat, nat protocol list, unit, unit, unit) kad_api" where
  "sample_node_kad =
     \<lparr>kd_bootstrap = Pair True, kd_add_address = (\<lambda>p a k. k), kd_put_record = (\<lambda>key v n k. (Some 0, k)),
      kd_get_record = (\<lambda>key. Pair 0), kd_get_closest_peers = (\<lambda>p. Pair 0), kd_poll = Pair Pending,
      kd_now = Pair 0, kd_random_peer = Pair 0, kd_send = (\<lambda>c k. k), kd_walk = (\<lambda>m. []),
      kd_callback = (\<lambda>cb. Pair ()), kd_on_swarm_event = (\<lambda>ev k. k)\<rparr>"

definition sample_node_rdvz ::
    "(unit, unit, nat, nat protocol list, string, unit, unit, unit, unit) rdvz_api" where
  "sample_node_rdvz =
     \<lparr>rz_tokio = \<lparr>tk_now = Pair 0, tk_interval_at = (\<lambda>t d. if d = 0 then Panic else Ret ()),
        tk_skip_missed = id, tk_poll_tick = (\<lambda>t w. (False, t, w))\<rparr>,
      rz_addr = sample_lib, rz_namespace = Inr, rz_order = (\<lambda>regs. []),
      rz_register = (\<lambda>ns p t. Pair True), rz_unregister = (\<lambda>ns p k. k),
      rz_discover = (\<lambda>ns c l p k. k), rz_poll = Pair Pending, rz_callback = (\<lambda>cb. Pair ()),
      rz_on_swarm_event = (\<lambda>ev k. k)\<rparr>"

definition sample_node ::
    "(sample_swarm, nat set, nat, string, nat protocol list, unit, unit, unit, nat, unit, unit, unit,
      string, unit, unit) node_api" where
  "sample_node =
     \<lparr>na_addr = sample_lib, na_gossip = sample_node_gossip, na_kad = sample_node_kad,
      na_rdvz = sample_node_rdvz,
      sw_dial = (\<lambda>a s. case sw_world s of (evs, ext, ds) \<Rightarrow> (True, s\<lparr>sw_world := (evs, ext, ds @ [a])\<rparr>)),
      sw_listen_on = (\<lambda>a. Pair True),
      sw_add_external_address = (\<lambda>a s. case sw_world s of (evs, ext, ds) \<Rightarrow> s\<lparr>sw_world := (evs, insert a ext, ds)\<rparr>),
      sw_now = Pair 0,
      sw_next = (\<lambda>s. case sw_world s of ([], r) \<Rightarrow> (None, s) | (e # es, r) \<Rightarrow> (Some e, s\<lparr>sw_world := (es, r)\<rparr>)),
      sw_next_before = (\<lambda>t s. case sw_world s of ([], r) \<Rightarrow> (None, s) | (e # es, r) \<Rightarrow> (Some e, s\<lparr>sw_world := (es, r)\<rparr>)),
      na_order = (\<lambda>ds. if ds = {} then [] else [(3, [Tcp 7])])\<rparr>"

definition sample_inner ::
    "(nat, nat protocol list, string, string) swarm_event list \<Rightarrow> (sample_swarm, nat protocol list) node_inner" where
  "sample_inner evs =
     \<lparr>swarm = \<lparr>behaviour = \<lparr>nb_identify = (), nb_gossip = gossip_new 1 {} False, nb_mdns = None,
        nb_rdvz = None, nb_dht = None, nb_dcutr = None, nb_relay = None\<rparr>, sw_world = (evs, {}, [])\<rparr>,
      dialing_relays = {}\<rparr>"

lemma sample_node_observers:
  "observes_external sample_node (\<lambda>s. fst (snd (sw_world s)))"
  "observes_dials sample_node (\<lambda>s. map (\<lambda>a. (a, True)) (snd (snd (sw_world s))))"
  "observes_explicit (na_gossip sample_node) id"
  by (auto simp: observes_external_def observes_dials_def observes_explicit_def sample_node_def
      sample_node_gossip_def split: prod.splits list.splits)

lemma start_listen_external_witness:
  "\<exists>st'. start_listen sample_node (sample_inner [SwNewListenAddr [Ip4 0x7F000001], SwNewListenAddr [Ip4 5]])
      = Some (Inr (), st') \<and> fst (snd (sw_world (swarm st'))) = {[Ip4 5]}"
proof -
  let ?evs = "[SwNewListenAddr [Ip4 0x7F000001], SwNewListenAddr [Ip4 5 :: nat protocol]]"
  let ?st = "(sample_inner [])\<lparr>swarm := (swarm (sample_inner []))\<lparr>sw_world := ([], {[Ip4 5]}, [])\<rparr>\<rparr>"
  have "listen_loop sample_node (sample_inner ?evs) = Some ?st"
    by (subst listen_loop.simps, simp add: sample_node_def sample_inner_def note_listen_addr_def is_loopback_def
          sample_lib_def list_lib_def, subst listen_loop.simps, simp add: note_listen_addr_def is_loopback_def
          add_external_address_def, subst listen_loop.simps, simp)
  then have run: "start_listen sample_node (sample_inner ?evs) = Some (Inr (), ?st)"
    by (simp add: start_listen_def) (simp add: sample_node_def sample_inner_def)
  from start_listen_external [OF sample_node_observers(1) run] run show ?thesis by auto
qed

text \<open>A swarm whose clock moves by half a second with every event, of which one comes at each half second.\<close>

definition sample_ticking ::
    "(sample_swarm, nat set, nat, string, nat protocol list, unit, unit, unit, nat, unit, unit, unit,
      string, unit, unit) node_api" where
  "sample_ticking = sample_node\<lparr>
     sw_now := (\<lambda>s. (length (snd (snd (sw_world s))) * 500000000, s)),
     sw_next_before := (\<lambda>t s. case sw_world s of (evs, ext, ds) \<Rightarrow>
       if Suc (length ds) * 500000000 < t then (Some SwDialing, s\<lparr>sw_world := (evs, ext, ds @ [[]])\<rparr>) else (None, s))\<rparr>"

lemma busy_swarm_never_starts_witness: "start_listen sample_ticking (sample_inner []) = None"
proof (rule busy_swarm_never_starts)
  show "\<forall>s now sw. sw_now sample_ticking s = (now, sw) \<longrightarrow>
      fst (sw_next_before sample_ticking (now + nanos_per_sec) sw) \<noteq> None"
    by (simp add: sample_ticking_def nanos_per_sec_def split: prod.splits)
  show "fst (sw_listen_on sample_ticking (any_tcp (na_addr sample_ticking)) (swarm (sample_inner [])))"
    by (simp add: sample_ticking_def sample_node_def)
qed

lemma relay_wait_drops_events_witness:
  "await_relay sample_node 4 False False (sample_inner [SwBehaviour (NbGossip (MsgReceived ''t'' [1]))])
     = await_relay sample_node 4 False False (sample_inner [])"
proof -
  let ?st = "sample_inner [SwBehaviour (NbGossip (MsgReceived ''t'' [1]))]"
  have "sw_next_before sample_node 4 (swarm ?st) = (Some (SwBehaviour (NbGossip (MsgReceived ''t'' [1]))),
      swarm (sample_inner []))"
    by (simp add: sample_node_def sample_inner_def)
  from relay_wait_drops_events [OF list_mpsc_ok this] show ?thesis
    by (simp add: sample_inner_def)
qed

lemma sample_lib_ok [simp]: "addr_lib_ok sample_lib"
  by (simp add: sample_lib_def)


lemma discovered_nodes_are_explicit_peers_witness:
  "\<exists>st' q'. handle_mdns_events sample_node (list_mpsc :: (string client_event, string client_event contents) mpsc_api)
     [MdnsDiscovered [(2, [Tcp 1])]] (sample_inner []) (mp_new list_mpsc) = (st', q') \<and>
   gossip (nb_gossip (behaviour (swarm st'))) = {2}"
proof -
  let ?E = "list_mpsc :: (string client_event, string client_event contents) mpsc_api"
  obtain st' q' where run: "handle_mdns_events sample_node ?E [MdnsDiscovered [(2, [Tcp 1])]] (sample_inner []) (mp_new ?E) = (st', q')"
    by force
  have queue: "mdns_queue (sample_mdns_start\<lparr>if_tasks := [V4 9 \<mapsto> 1], discovered_nodes := [(2, [Tcp 1], 7)],
      closest_expiration := Some ()\<rparr>) = []"
    and start: "gossip (nb_gossip (behaviour (swarm (sample_inner [])))) = {}"
    by (simp_all add: sample_mdns_start_def sample_inner_def gossip_new_def)
  from discovered_nodes_are_explicit_peers [OF sample_mdns_new sample_mdns_run queue sample_node_observers(3) run]
  have "gossip (nb_gossip (behaviour (swarm st'))) = {2}" by (simp add: start)
  with run show ?thesis by blast
qed

end
