(* ===== verification/NodeCommands.thy ===== *)
theory NodeCommands
  imports NodeInner
begin

text \<open>
  \<open>src/node.rs\<close>, the handlers of \<open>NodeInner\<close> as a whole: which commands \<open>handle_command\<close> rejects
  and what the others leave alone, and what \<open>handle_listen_via_relay\<close> has done when it returns.
\<close>

section \<open>The outcome of a command\<close>

text \<open>
  A command is rejected for a text in it that does not parse, when the behaviour it is for is
  enabled, or for an address the swarm refuses to dial.
\<close>

definition dht_enabled where
  "dht_enabled st \<longleftrightarrow> nb_dht (behaviour (swarm st)) \<noteq> None"

definition rdvz_enabled where
  "rdvz_enabled st \<longleftrightarrow> nb_rdvz (behaviour (swarm st)) \<noteq> None"

definition no_address where
  "no_address A text \<longleftrightarrow> ma_parse (na_addr A) text = None"

definition no_peer where
  "no_peer A text \<longleftrightarrow> pid_parse (na_addr A) text = None"

definition no_namespace where
  "no_namespace A text \<longleftrightarrow> (\<exists>e. rz_namespace (na_rdvz A) text = Inl e)"

definition dial_refused where
  "dial_refused A text st \<longleftrightarrow> (\<exists>a. ma_parse (na_addr A) text = Some a \<and> \<not> fst (sw_dial A a (swarm st)))"

lemmas rejection_defs = dht_enabled_def rdvz_enabled_def no_address_def no_peer_def no_namespace_def
  dial_refused_def

fun rejected where
  "rejected A (CmdDial address) st \<longleftrightarrow> no_address A address \<or> dial_refused A address st"
| "rejected A (CmdListenViaRelay address) st \<longleftrightarrow> no_address A address"
| "rejected A (CmdAddKnownPeer peer address) st \<longleftrightarrow> dht_enabled st \<and> (no_peer A peer \<or> no_address A address)"
| "rejected A (CmdAddBootNode peer address) st \<longleftrightarrow> dht_enabled st \<and> (no_peer A peer \<or> no_address A address)"
| "rejected A (CmdRegister point ns) st \<longleftrightarrow> rdvz_enabled st \<and> (no_address A point \<or> no_namespace A ns)"
| "rejected A (CmdDiscover point ns) st \<longleftrightarrow> rdvz_enabled st \<and> (no_address A point \<or> no_namespace A ns)"
| "rejected A (CmdUnregister ns) st \<longleftrightarrow> rdvz_enabled st \<and> no_namespace A ns"
| "rejected A _ st \<longleftrightarrow> False"

text \<open>The behaviour a command is for.\<close>

datatype target = ForSwarm | ForGossip | ForDht | ForRdvz | ForNobody

fun target_of :: "('o, 'l) command \<Rightarrow> target" where
  "target_of (CmdDial _) = ForSwarm"
| "target_of (CmdListenViaRelay _) = ForSwarm"
| "target_of CmdBeginBootstrap = ForDht"
| "target_of (CmdAddKnownPeer _ _) = ForDht"
| "target_of (CmdAddBootNode _ _) = ForDht"
| "target_of (CmdPutRecord _ _) = ForDht"
| "target_of (CmdGetRecord _ _) = ForDht"
| "target_of (CmdRegister _ _) = ForRdvz"
| "target_of (CmdUnregister _) = ForRdvz"
| "target_of (CmdDiscover _ _) = ForRdvz"
| "target_of (CmdPublish _ _) = ForGossip"
| "target_of (CmdSubscribe _) = ForGossip"
| "target_of (CmdUnsubscribe _) = ForGossip"
| "target_of _ = ForNobody"

text \<open>The state with the behaviour a command is for taken out.\<close>

definition others where
  "others t st =
     (let b = behaviour (swarm st)
      in (sw_world (swarm st), dialing_relays st, nb_identify b, nb_mdns b, nb_dcutr b, nb_relay b,
          if t = ForGossip then None else Some (nb_gossip b),
          if t = ForDht then None else nb_dht b, if t = ForRdvz then None else nb_rdvz b))"

lemma others_on [simp]:
  "others ForGossip (on_gossip f st) = others ForGossip st"
  "others ForDht (on_dht f' st) = others ForDht st"
  by (simp_all add: others_def on_gossip_def on_dht_def Let_def)

lemma others_on_rdvz: "on_rdvz f st = (r, st') \<Longrightarrow> others ForRdvz st' = others ForRdvz st"
  by (auto simp: others_def on_rdvz_def Let_def split: option.splits prod.splits)

text \<open>An operation of the rendezvous behaviour fails on a namespace that is not valid, and then changes nothing.\<close>

lemma on_rdvz_checked:
  assumes "on_rdvz f st = (r, st')"
    and "\<And>b. f b = (case rz_namespace (na_rdvz A) ns of Inl e \<Rightarrow> (Inl e, b) | Inr n \<Rightarrow> (Inr (), g n b))"
  shows "(\<exists>e. r = Inl e) \<longleftrightarrow> rdvz_enabled st \<and> no_namespace A ns" and "r = Inl e \<Longrightarrow> st' = st"
  using assms(1)
  by (auto simp: on_rdvz_def assms(2) rdvz_enabled_def no_namespace_def split: option.splits sum.splits prod.splits)

lemma carry_onE:
  assumes "carry_on x = (r, st')"
  obtains r0 where "x = (r0, st')" "\<And>e. r = Inl e \<longleftrightarrow> r0 = Inl e" "r \<noteq> Inr True"
  using assms by (cases x; cases "fst x") (auto simp: carry_on_def)

lemma dial_outcome:
  assumes "with_multiaddr A address st (\<lambda>a. swarm_dial A a st) = (r, st')"
  shows "(\<exists>e. r = Inl e) \<longleftrightarrow> no_address A address \<or> dial_refused A address st"
    and "r = Inl e \<Longrightarrow> e \<noteq> DialFailed \<Longrightarrow> st' = st"
  using assms by (auto simp: with_multiaddr_def swarm_dial_def no_address_def dial_refused_def
      split: option.splits prod.splits if_splits)

lemma on_rdvz_outcome:
  assumes "(if rdvz_enabled st then with_multiaddr A point st (\<lambda>a. on_rdvz (f a) st) else (Inr (), st)) = (r, st')"
    and "\<And>a b. f a b = (case rz_namespace (na_rdvz A) ns of Inl e \<Rightarrow> (Inl e, b) | Inr n \<Rightarrow> (Inr (), g a n b))"
  shows "(\<exists>e. r = Inl e) \<longleftrightarrow> rdvz_enabled st \<and> (no_address A point \<or> no_namespace A ns)"
    and "r = Inl e \<Longrightarrow> st' = st" and "others ForRdvz st' = others ForRdvz st"
proof -
  have on: "on_rdvz (f a) st = (r, st') \<Longrightarrow>
      ((\<exists>e. r = Inl e) \<longleftrightarrow> rdvz_enabled st \<and> no_namespace A ns) \<and> (r = Inl e \<longrightarrow> st' = st)" for a
    using on_rdvz_checked [where f = "f a" and g = "g a" and A = A and ns = ns, OF _ assms(2)] by blast
  show "(\<exists>e. r = Inl e) \<longleftrightarrow> rdvz_enabled st \<and> (no_address A point \<or> no_namespace A ns)"
    and "r = Inl e \<Longrightarrow> st' = st" and "others ForRdvz st' = others ForRdvz st"
    using assms(1) on others_on_rdvz
    by (auto simp: with_multiaddr_def no_address_def split: if_splits option.splits)
qed

lemmas register_outcome = on_rdvz_outcome
  [where f = "\<lambda>a. rdvz_register (na_rdvz A) a ns" and g = "\<lambda>a n b. b\<lparr>registrations := insert (a, n) (registrations b)\<rparr>"
    and ns = ns and A = A for A ns, OF _ rdvz_register_def]

lemmas discover_outcome = on_rdvz_outcome
  [where f = "\<lambda>a. rdvz_discover (na_rdvz A) a ns" and g = "\<lambda>a n b. b\<lparr>discovery := insert (a, n) (discovery b)\<rparr>"
    and ns = ns and A = A for A ns, OF _ rdvz_discover_def]

lemmas unregister_outcome = on_rdvz_checked
  [where f = "rdvz_unregister (na_rdvz A) ns"
    and g = "\<lambda>n b. b\<lparr>rdvz := unregister_all (na_rdvz A) n (rz_order (na_rdvz A) (registrations b)) (rdvz b)\<rparr>"
    and ns = ns and A = A for A ns, OF _ rdvz_unregister_def]

lemma dht_outcome:
  assumes "(if dht_enabled st
      then with_peer_id A peer st (\<lambda>p. with_multiaddr A address st (\<lambda>a. (Inr (), on_dht (f p a) st)))
      else (Inr (), st)) = (r, st')"
  shows "(\<exists>e. r = Inl e) \<longleftrightarrow> dht_enabled st \<and> (no_peer A peer \<or> no_address A address)"
    and "r = Inl e \<Longrightarrow> st' = st" and "others ForDht st' = others ForDht st"
  using assms by (auto simp: with_peer_id_def with_multiaddr_def no_peer_def no_address_def
      split: if_splits option.splits)

section \<open>Waiting for a relay\<close>

text \<open>What one event does to the two flags and the node.\<close>

definition relay_note where
  "relay_note A event learned told_relay st =
     (case event of
        SwBehaviour (NbIdentify IdentifySent) \<Rightarrow> (learned, True, st)
      | SwBehaviour (NbIdentify (IdentifyReceived observed_addr)) \<Rightarrow>
          (True, told_relay, add_external_address A observed_addr st)
      | _ \<Rightarrow> (learned, told_relay, st))"

text \<open>The events the loop takes, and how it ends.\<close>

inductive relay_trace for A till where
  too_late: "sw_next_before A till (swarm st) = (None, sw) \<Longrightarrow>
    relay_trace A till learned told_relay st [] (False, st\<lparr>swarm := sw\<rparr>)"
| exchanged: "sw_next_before A till (swarm st) = (Some event, sw) \<Longrightarrow>
    relay_note A event learned told_relay (st\<lparr>swarm := sw\<rparr>) = (True, True, st1) \<Longrightarrow>
    relay_trace A till learned told_relay st [event] (True, st1)"
| not_yet: "sw_next_before A till (swarm st) = (Some event, sw) \<Longrightarrow>
    relay_note A event learned told_relay (st\<lparr>swarm := sw\<rparr>) = (l1, t1, st1) \<Longrightarrow> \<not> (l1 \<and> t1) \<Longrightarrow>
    relay_trace A till l1 t1 st1 events result \<Longrightarrow>
    relay_trace A till learned told_relay st (event # events) result"

lemma await_relay_trace:
  "await_relay A till learned told_relay st = Some result \<Longrightarrow>
     \<exists>events. relay_trace A till learned told_relay st events result"
proof -
  let ?P = "\<lambda>api t l r st result. api = A \<longrightarrow> t = till \<longrightarrow> (\<exists>events. relay_trace A till l r st events result)"
  have "?P api t l r st result" if "await_relay api t l r st = Some result" for api t l r st result
  proof (rule await_relay.raw_induct [where P = ?P, OF _ that], intro impI)
    fix f api t l r st result
    assume IH: "\<And>api t l r st result. f api t l r st = Some result \<Longrightarrow> ?P api t l r st result"
      and body: "(case sw_next_before api t (swarm st) of
          (None, sw) \<Rightarrow> Some (False, st\<lparr>swarm := sw\<rparr>)
        | (Some event, sw) \<Rightarrow>
            (let st1 = st\<lparr>swarm := sw\<rparr>;
                 (learned1, told_relay1, st2) =
                   (case event of
                      SwBehaviour (NbIdentify IdentifySent) \<Rightarrow> (l, True, st1)
                    | SwBehaviour (NbIdentify (IdentifyReceived observed_addr)) \<Rightarrow>
                        (True, r, add_external_address api observed_addr st1)
                    | _ \<Rightarrow> (l, r, st1))
             in if learned1 \<and> told_relay1 then Some (True, st2) else f api t learned1 told_relay1 st2)) = Some result"
      and same: "api = A" "t = till"
    obtain o1 sw where next_event: "sw_next_before A till (swarm st) = (o1, sw)" by force
    show "\<exists>events. relay_trace A till l r st events result"
    proof (cases o1)
      case None
      with next_event body same have "result = (False, st\<lparr>swarm := sw\<rparr>)" by simp
      moreover from too_late [OF next_event [unfolded None]]
      have "relay_trace A till l r st [] (False, st\<lparr>swarm := sw\<rparr>)" .
      ultimately show ?thesis by blast
    next
      case (Some event)
      obtain l1 t1 st1 where noted: "relay_note A event l r (st\<lparr>swarm := sw\<rparr>) = (l1, t1, st1)"
        by (metis prod.exhaust)
      with body next_event Some same noted
      have goes: "(if l1 \<and> t1 then Some (True, st1) else f A till l1 t1 st1) = Some result"
        unfolding relay_note_def [symmetric] by (auto simp: Let_def split: if_splits)
      then show ?thesis
      proof (cases "l1 \<and> t1")
        case True
        with noted goes exchanged [OF next_event [unfolded Some]] show ?thesis by auto
      next
        case False
        with goes have "f A till l1 t1 st1 = Some result" by auto
        with IH [of A till l1 t1 st1 result] obtain events where "relay_trace A till l1 t1 st1 events result" by blast
        with not_yet [OF next_event [unfolded Some] noted False] show ?thesis by blast
      qed
    qed
  qed
  then show "await_relay A till learned told_relay st = Some result \<Longrightarrow>
     \<exists>events. relay_trace A till learned told_relay st events result" by blast
qed

definition observed_addrs where
  "observed_addrs events = {a. SwBehaviour (NbIdentify (IdentifyReceived a)) \<in> set events}"

definition own_sent where
  "own_sent events \<longleftrightarrow> SwBehaviour (NbIdentify IdentifySent) \<in> set events"

lemma relay_note_result:
  assumes "relay_note A event l t st = (l1, t1, st1)" "observes_external A external"
  shows "external (swarm st1) = external (swarm st) \<union> observed_addrs [event]"
    "dialing_relays st1 = dialing_relays st"
    "l1 \<longleftrightarrow> l \<or> observed_addrs [event] \<noteq> {}" "t1 \<longleftrightarrow> t \<or> own_sent [event]"
  using assms by (auto simp: relay_note_def observed_addrs_def own_sent_def add_external_address_def
      observes_external_def split: swarm_event.splits node_behaviour_event.splits identify_event.splits)

lemma observed_addrs_Cons: "observed_addrs (e # es) = observed_addrs [e] \<union> observed_addrs es"
  by (auto simp: observed_addrs_def)

lemma own_sent_Cons: "own_sent (e # es) \<longleftrightarrow> own_sent [e] \<or> own_sent es"
  by (auto simp: own_sent_def)

lemma relay_trace_result:
  assumes "relay_trace A till l t st events result" "observes_external A external"
  shows "external (swarm (snd result)) = external (swarm st) \<union> observed_addrs events \<and>
    dialing_relays (snd result) = dialing_relays st \<and>
    (\<not> (l \<and> t) \<longrightarrow> fst result = ((l \<or> observed_addrs events \<noteq> {}) \<and> (t \<or> own_sent events)))"
  using assms(1)
proof (induction rule: relay_trace.induct)
  case (too_late st sw l t)
  then have "external sw = external (swarm st)"
    using assms(2) unfolding observes_external_def by (metis snd_conv)
  then show ?case by (auto simp: observed_addrs_def own_sent_def)
next
  case (exchanged st event sw l t st1)
  then have "external sw = external (swarm st)"
    using assms(2) unfolding observes_external_def by (metis snd_conv)
  with relay_note_result [OF exchanged(2) assms(2)] show ?case by auto
next
  case (not_yet st event sw l t l1 t1 st1 events result)
  then have "external sw = external (swarm st)"
    using assms(2) unfolding observes_external_def by (metis snd_conv)
  with relay_note_result [OF not_yet(2) assms(2)] not_yet(3,5) show ?case
    unfolding observed_addrs_Cons [of event events] own_sent_Cons [of event events] by auto
qed

text \<open>What follows the wait.\<close>

definition relay_end where
  "relay_end A address = (\<lambda>(connected, st).
     if \<not> connected then Some (Inl TimedOut, st\<lparr>dialing_relays := insert address (dialing_relays st)\<rparr>)
     else (let new_address = ma_with (na_addr A) address P2pCircuit
           in (case sw_listen_on A new_address (swarm st) of
                 (False, sw1) \<Rightarrow> Some (Inl ListenFailed, st\<lparr>swarm := sw1\<rparr>)
               | (True, sw1) \<Rightarrow> Some (Inr (), add_external_address A new_address (st\<lparr>swarm := sw1\<rparr>)))))"

lemma relay_end_result:
  assumes "relay_end A address (ok, st) = Some (r, st')" "observes_external A external"
  shows "r \<in> (if ok then {Inr (), Inl ListenFailed} else {Inl TimedOut})"
    and "external (swarm st') = external (swarm st) \<union> (if r = Inr () then {ma_with (na_addr A) address P2pCircuit} else {})"
    and "dialing_relays st' = dialing_relays st \<union> (if r = Inl TimedOut then {address} else {})"
proof -
  let ?new = "ma_with (na_addr A) address P2pCircuit"
  obtain listens sw1 where listen: "sw_listen_on A ?new (swarm st) = (listens, sw1)" by force
  then have "external sw1 = external (swarm st)" using assms(2) unfolding observes_external_def by (metis snd_conv)
  then show "r \<in> (if ok then {Inr (), Inl ListenFailed} else {Inl TimedOut})"
    and "external (swarm st') = external (swarm st) \<union> (if r = Inr () then {?new} else {})"
    and "dialing_relays st' = dialing_relays st \<union> (if r = Inl TimedOut then {address} else {})"
    using assms listen
    by (auto simp: relay_end_def add_external_address_def observes_external_def split: if_splits bool.splits)
qed

text \<open>
  C20: When the swarm accepts to dial a relay, a call of \<open>handle_listen_via_relay\<close> that returns has
  taken the events of a \<open>relay_trace\<close> from the swarm. It has connected if and only if among them were
  both an address that a peer observed and the notice that the node's own were sent; else it fails
  with the timeout and the relay is kept in \<open>dialing_relays\<close>, which changes in no other case. The
  external addresses are those before, all the observed ones, and on success the relayed address.
  When the swarm refuses the dial, none of this happens.
\<close>

theorem relay_exchange:
  fixes A :: "(_, 'g, 'i, 'h, 'a, 'x, 'r, 'd, 'q, 'c, 'k, 't, 'n, 'co, 'e) node_api"
  assumes "observes_external A external" "\<forall>a s. external (snd (sw_dial A a s)) = external s"
    and "handle_listen_via_relay A address st = Some (r, st')" "sw_dial A address (swarm st) = (dialed, sw)"
  shows "if \<not> dialed then r = Inl DialFailed \<and> st' = st\<lparr>swarm := sw\<rparr>
    else (\<exists>events st2. relay_trace A (fst (sw_now A sw) + 4 * nanos_per_sec) False False (st\<lparr>swarm := snd (sw_now A sw)\<rparr>)
          events (r \<noteq> Inl TimedOut, st2) \<and>
        r \<in> (if observed_addrs events \<noteq> {} \<and> own_sent events then {Inr (), Inl ListenFailed} else {Inl TimedOut}) \<and>
        external (swarm st') = external (swarm st) \<union> observed_addrs events \<union>
          (if r = Inr () then {ma_with (na_addr A) address P2pCircuit} else {}) \<and>
        dialing_relays st' = dialing_relays st \<union> (if r = Inl TimedOut then {address} else {}))"
proof (cases dialed)
  case False
  with assms(3,4) show ?thesis by (simp add: handle_listen_via_relay_def swarm_dial_def)
next
  case True
  let ?till = "fst (sw_now A sw) + 4 * nanos_per_sec" and ?st1 = "st\<lparr>swarm := snd (sw_now A sw)\<rparr>"
  have "external (snd (sw_now A sw)) = external (swarm st)"
    using assms(1,2,4) unfolding observes_external_def by (metis snd_conv)
  then have same: "external (swarm ?st1) = external (swarm st)" "dialing_relays ?st1 = dialing_relays st" by simp_all
  have "handle_listen_via_relay A address st = Option.bind (await_relay A ?till False False ?st1) (relay_end A address)"
    using True assms(4) by (simp add: handle_listen_via_relay_def relay_end_def swarm_dial_def split_beta)
  then obtain ok st2 where wait: "await_relay A ?till False False ?st1 = Some (ok, st2)"
    and rest: "relay_end A address (ok, st2) = Some (r, st')"
    using assms(3) by (cases "await_relay A ?till False False ?st1") auto
  from await_relay_trace [OF wait] obtain events where trace: "relay_trace A ?till False False ?st1 events (ok, st2)" ..
  note waited = relay_trace_result [OF trace assms(1), simplified] and ended = relay_end_result [OF rest assms(1)]
  have "ok \<longleftrightarrow> r \<noteq> Inl TimedOut" using ended(1) by (cases ok) auto
  with trace have "relay_trace A ?till False False ?st1 events (r \<noteq> Inl TimedOut, st2)" by simp
  moreover have "r \<in> (if observed_addrs events \<noteq> {} \<and> own_sent events then {Inr (), Inl ListenFailed} else {Inl TimedOut})"
    using waited ended(1) by simp
  moreover have "external (swarm st') = external (swarm st) \<union> observed_addrs events \<union>
      (if r = Inr () then {ma_with (na_addr A) address P2pCircuit} else {})"
    "dialing_relays st' = dialing_relays st \<union> (if r = Inl TimedOut then {address} else {})"
    using waited ended(2,3) same by simp_all
  ultimately show ?thesis using True by (simp only: not_True_eq_False if_False) blast
qed

text \<open>
  C19: A command makes the handler answer \<open>true\<close> exactly when it is \<open>Shutdown\<close>, and fail exactly
  when it is rejected: for a text that does not parse, if the behaviour it is for is enabled, or
  for an address the swarm refuses to dial. A command that fails otherwise than by a refused dial
  has changed nothing, and one that is not for the swarm changes nothing but the behaviour it is
  for. (An error of a listening on a relay is only logged.)
\<close>

theorem command_outcome:
  assumes "handle_command A command st = Some (r, st')"
  shows "(r = Inr True \<longleftrightarrow> command = CmdShutdown) \<and> ((\<exists>e. r = Inl e) \<longleftrightarrow> rejected A command st) \<and>
    (r = Inl e \<longrightarrow> e \<noteq> DialFailed \<longrightarrow> st' = st) \<and>
    (target_of command \<noteq> ForSwarm \<longrightarrow> others (target_of command) st' = others (target_of command) st)"
proof (cases command)
  case (CmdDial address)
  from assms obtain r0 where run: "with_multiaddr A address st (\<lambda>a. swarm_dial A a st) = (r0, st')" and r0: "\<And>e. r = Inl e \<longleftrightarrow> r0 = Inl e" "r \<noteq> Inr True"
    by (auto simp: CmdDial handle_command_def elim!: carry_onE)
  from dial_outcome [OF run] show ?thesis by (simp add: CmdDial r0)
next
  case (CmdListenViaRelay address)
  with assms show ?thesis by (auto simp: handle_command_def no_address_def split: option.splits)
next
  case (CmdAddKnownPeer peer address)
  from assms obtain r0 where run: "(if dht_enabled st then with_peer_id A peer st (\<lambda>p. with_multiaddr A address st (\<lambda>a. (Inr (), on_dht (dht_add_address (na_kad A) p a) st))) else (Inr (), st)) = (r0, st')" and r0: "\<And>e. r = Inl e \<longleftrightarrow> r0 = Inl e" "r \<noteq> Inr True"
    by (auto simp: CmdAddKnownPeer handle_command_def dht_enabled_def elim!: carry_onE)
  from dht_outcome [OF run] show ?thesis by (simp add: CmdAddKnownPeer r0)
next
  case (CmdAddBootNode peer address)
  from assms obtain r0 where run: "(if dht_enabled st then with_peer_id A peer st (\<lambda>p. with_multiaddr A address st (\<lambda>a. (Inr (), on_dht (add_bootnodes p a) st))) else (Inr (), st)) = (r0, st')" and r0: "\<And>e. r = Inl e \<longleftrightarrow> r0 = Inl e" "r \<noteq> Inr True"
    by (auto simp: CmdAddBootNode handle_command_def dht_enabled_def elim!: carry_onE)
  from dht_outcome [OF run] show ?thesis by (simp add: CmdAddBootNode r0)
next
  case (CmdRegister point ns)
  from assms obtain r0 where run: "(if rdvz_enabled st then with_multiaddr A point st (\<lambda>a. on_rdvz (rdvz_register (na_rdvz A) a ns) st) else (Inr (), st)) = (r0, st')" and r0: "\<And>e. r = Inl e \<longleftrightarrow> r0 = Inl e" "r \<noteq> Inr True"
    by (auto simp: CmdRegister handle_command_def rdvz_enabled_def elim!: carry_onE)
  from register_outcome [OF run] show ?thesis by (simp add: CmdRegister r0)
next
  case (CmdDiscover point ns)
  from assms obtain r0 where run: "(if rdvz_enabled st then with_multiaddr A point st (\<lambda>a. on_rdvz (rdvz_discover (na_rdvz A) a ns) st) else (Inr (), st)) = (r0, st')" and r0: "\<And>e. r = Inl e \<longleftrightarrow> r0 = Inl e" "r \<noteq> Inr True"
    by (auto simp: CmdDiscover handle_command_def rdvz_enabled_def elim!: carry_onE)
  from discover_outcome [OF run] show ?thesis by (simp add: CmdDiscover r0)
next
  case (CmdUnregister ns)
  from assms obtain r0 where run: "on_rdvz (rdvz_unregister (na_rdvz A) ns) st = (r0, st')" and r0: "\<And>e. r = Inl e \<longleftrightarrow> r0 = Inl e" "r \<noteq> Inr True"
    by (auto simp: CmdUnregister handle_command_def elim!: carry_onE)
  from unregister_outcome [OF run] others_on_rdvz [OF run] show ?thesis by (simp add: CmdUnregister r0)
qed (use assms in \<open>auto simp: handle_command_def\<close>)

section \<open>Examples\<close>

lemma command_outcome_witness:
  "\<exists>st'. handle_command sample_node (CmdDial ''x'' :: (unit, unit) command) (sample_inner [])
       = Some (Inl InvalidMultiaddr, st') \<and> st' = sample_inner []"
proof -
  have bad: "ma_parse (na_addr sample_node) ''x'' = None"
    by (simp add: sample_node_def sample_lib_def list_lib_def)
  obtain r st' where run: "handle_command sample_node (CmdDial ''x'' :: (unit, unit) command) (sample_inner []) = Some (r, st')"
    and r: "r = Inl InvalidMultiaddr"
    using bad by (auto simp: handle_command_def with_multiaddr_def carry_on_def)
  from command_outcome [OF run, of InvalidMultiaddr] run r show ?thesis by simp
qed

lemma relay_exchange_witness:
  "\<exists>st'. handle_listen_via_relay sample_node [Tcp 9]
       (sample_inner [SwBehaviour (NbIdentify IdentifySent), SwBehaviour (NbIdentify (IdentifyReceived [Ip4 5]))])
     = Some (Inr (), st') \<and>
     dialing_relays st' = {} \<and> [Tcp 9, P2pCircuit] \<in> fst (snd (sw_world (swarm st')))"
proof -
  let ?sent = "SwBehaviour (NbIdentify IdentifySent)"
  let ?received = "SwBehaviour (NbIdentify (IdentifyReceived [Ip4 5]))"
  let ?st = "sample_inner [?sent, ?received]"
  let ?sw = "(swarm ?st)\<lparr>sw_world := ([?sent, ?received], {}, [[Tcp 9]])\<rparr>"
  have dial: "sw_dial sample_node [Tcp 9] (swarm ?st) = (True, ?sw)" and now: "sw_now sample_node ?sw = (0, ?sw)"
    by (simp_all add: sample_node_def sample_inner_def)
  have "\<exists>st2. await_relay sample_node (4 * nanos_per_sec) False False (?st\<lparr>swarm := ?sw\<rparr>) = Some (True, st2)"
    by (subst await_relay.simps, simp add: sample_node_def sample_inner_def, subst await_relay.simps,
        simp add: add_external_address_def)
  then obtain st' where run: "handle_listen_via_relay sample_node [Tcp 9] ?st = Some (Inr (), st')"
    by (auto simp: handle_listen_via_relay_def swarm_dial_def dial now) (simp add: sample_node_def)
  have "\<forall>a s. fst (snd (sw_world (snd (sw_dial sample_node a s)))) = fst (snd (sw_world s))"
    by (simp add: sample_node_def split: prod.splits)
  from relay_exchange [OF sample_node_observers(1) this run dial] run show ?thesis
    by (auto simp: sample_inner_def) (simp add: sample_node_def sample_lib_def list_lib_def)
qed

end
