(* ===== verification/NodeLife.thy ===== *)
theory NodeLife
  imports NodeInner
begin

text \<open>
  \<open>src/node.rs\<close>, the life of a node: the event loop that \<open>spawn_listeners\<close> starts, the task of
  \<open>execute\<close> that hands events to the client, and \<open>shutdown\<close>. The tasks run concurrently: a step
  of the relation \<open>node_step\<close> is one turn of one of them, up to its next suspension, or a call of
  the client.
\<close>

section \<open>State\<close>

text \<open>Where the task of \<open>execute\<close> is.\<close>

datatype 'h handler = NotSpawned | Starting | Waiting | Handling "'h client_event" | Ended

text \<open>
  \<open>ns_loop\<close> is the state of the event loop until it ends. Of the one-shot channel of \<open>shutdown\<close>,
  \<open>kill_req\<close> and \<open>kill_resp\<close> say whether its ends are still in their mutexes, \<open>kill_sent\<close>
  whether the signal is sent. \<open>ns_shutdowns\<close> counts the calls of \<open>shutdown\<close> between their two
  effects. \<open>ns_delivered\<close> is the history of the events handed to the client.
\<close>

record ('st, 'cq, 'eq, 'h) node_sys =
  ns_loop :: "'st option"
  ns_commands :: 'cq
  ns_events :: 'eq
  receiver_spawned :: bool
  is_killed :: bool
  kill_req :: bool
  kill_resp :: bool
  kill_sent :: bool
  ns_handler :: "'h handler"
  ns_shutdowns :: nat
  ns_delivered :: "'h client_event list"

text \<open>What \<open>init\<close> returns, once the loop is spawned with the state \<open>st\<close>.\<close>

definition node_started where
  "node_started C E st =
     \<lparr>ns_loop = Some st, ns_commands = unbounded C, ns_events = unbounded E,
      receiver_spawned = False, is_killed = False, kill_req = True, kill_resp = True,
      kill_sent = False, ns_handler = NotSpawned, ns_shutdowns = 0, ns_delivered = []\<rparr>"

section \<open>The event loop\<close>

text \<open>At its end the task drops the command receiver, the event sender and the swarm.\<close>

definition end_loop where
  "end_loop C E s =
     s\<lparr>ns_loop := None, ns_commands := mp_close C (ns_commands s), ns_events := mp_hang_up E (ns_events s)\<rparr>"

text \<open>The two arms of the \<open>select!\<close>. An error that \<open>?\<close> returns ends the task like \<open>break\<close>.\<close>

definition loop_command where
  "loop_command A C E st s =
     (case unbounded_recv C (ns_commands s) of
        (Pending, q) \<Rightarrow> Some s
      | (Ready (Inl _), q) \<Rightarrow> Some (s\<lparr>ns_commands := q\<rparr>)
      | (Ready (Inr command), q) \<Rightarrow>
          map_option
            (\<lambda>(r, st1).
               if r = Inr False then s\<lparr>ns_commands := q, ns_loop := Some st1\<rparr>
               else end_loop C E (s\<lparr>ns_commands := q\<rparr>))
            (handle_command A command st))"

definition loop_event where
  "loop_event A C E st s =
     (case sw_next A (swarm st) of
        (None, sw) \<Rightarrow> s\<lparr>ns_loop := Some (st\<lparr>swarm := sw\<rparr>)\<rparr>
      | (Some event, sw) \<Rightarrow>
          (case handle_swarm_event A E event (st\<lparr>swarm := sw\<rparr>) (ns_events s) of
             (Inr _, st1, q) \<Rightarrow> s\<lparr>ns_loop := Some st1, ns_events := q\<rparr>
           | (Inl _, st1, q) \<Rightarrow> end_loop C E (s\<lparr>ns_events := q\<rparr>)))"

section \<open>The client\<close>

text \<open>\<open>execute\<close> panics when it was called before.\<close>

definition execute where
  "execute s =
     (if receiver_spawned s then Panic else Ret (s\<lparr>receiver_spawned := True, ns_handler := Starting\<rparr>))"

definition handler_start where
  "handler_start s =
     (if kill_resp s then s\<lparr>kill_resp := False, ns_handler := Waiting\<rparr> else s\<lparr>ns_handler := Ended\<rparr>)"

text \<open>\<open>select\<close> polls the event first, the signal only while no event is there.\<close>

definition handler_poll where
  "handler_poll E s =
     (case unbounded_recv E (ns_events s) of
        (Ready (Inr event), q) \<Rightarrow>
          s\<lparr>ns_events := q, ns_handler := Handling event, ns_delivered := ns_delivered s @ [event]\<rparr>
      | (Ready (Inl _), q) \<Rightarrow> s\<lparr>ns_events := q, ns_handler := Ended\<rparr>
      | (Pending, q) \<Rightarrow> if kill_sent s then s\<lparr>is_killed := True, ns_handler := Ended\<rparr> else s)"

definition handler_done where
  "handler_done ok s = s\<lparr>ns_handler := (if ok then Waiting else Ended)\<rparr>"

text \<open>The signal is sent at most once, and arrives only while its receiver exists.\<close>

definition shutdown_send where
  "shutdown_send C s =
     (case unbounded_send C CmdShutdown (ns_commands s) of
        (Inl _, q) \<Rightarrow> s\<lparr>ns_commands := q\<rparr>
      | (Inr _, q) \<Rightarrow> s\<lparr>ns_commands := q, ns_shutdowns := Suc (ns_shutdowns s)\<rparr>)"

definition shutdown_signal where
  "shutdown_signal s =
     s\<lparr>ns_shutdowns := ns_shutdowns s - 1,
       kill_sent := kill_sent s \<or> kill_req s \<and> ns_handler s \<noteq> Ended, kill_req := False\<rparr>"

definition is_down where
  "is_down s = is_killed s"

section \<open>Steps\<close>

inductive node_step for A C E where
  command_turn: "ns_loop s = Some st \<Longrightarrow> loop_command A C E st s = Some s' \<Longrightarrow> node_step A C E s s'"
| event_turn: "ns_loop s = Some st \<Longrightarrow> node_step A C E s (loop_event A C E st s)"
| send_turn: "node_step A C E s (s\<lparr>ns_commands := snd (unbounded_send C command (ns_commands s))\<rparr>)"
| execute_turn: "execute s = Ret s' \<Longrightarrow> node_step A C E s s'"
| start_turn: "ns_handler s = Starting \<Longrightarrow> node_step A C E s (handler_start s)"
| poll_turn: "ns_handler s = Waiting \<Longrightarrow> node_step A C E s (handler_poll E s)"
| done_turn: "ns_handler s = Handling event \<Longrightarrow> node_step A C E s (handler_done ok s)"
| shutdown_turn: "node_step A C E s (shutdown_send C s)"
| signal_turn: "0 < ns_shutdowns s \<Longrightarrow> node_step A C E s (shutdown_signal s)"

inductive node_steps for A C E where
  no_step: "node_steps A C E s s"
| more_steps: "node_step A C E s s1 \<Longrightarrow> node_steps A C E s1 s2 \<Longrightarrow> node_steps A C E s s2"

lemma node_steps_trans: "node_steps A C E s s1 \<Longrightarrow> node_steps A C E s1 s2 \<Longrightarrow> node_steps A C E s s2"
  by (induction rule: node_steps.induct) (auto intro: node_steps.more_steps)

lemma node_steps_one: "node_step A C E s s1 \<Longrightarrow> node_steps A C E s s1"
  by (blast intro: node_steps.intros)

section \<open>Channels\<close>

lemma unbounded_recv_ok:
  assumes "mpsc_ok C see" "unbounded_recv C q = (r, q1)"
  shows "see q1 = (see q)\<lparr>held := tl (held (see q))\<rparr>"
    and "r = (case held (see q) of m # ms \<Rightarrow> Ready (Inr m)
      | [] \<Rightarrow> if tx_alive (see q) then Pending else Ready (Inl UnboundedRecvError))"
proof -
  obtain o1 q2 where o1: "mp_recv C q = (o1, q2)" by force
  have "o1 = (case held (see q) of m # ms \<Rightarrow> Ready (Some m) | [] \<Rightarrow> if tx_alive (see q) then Pending else Ready None)"
    "see q2 = (see q)\<lparr>held := tl (held (see q))\<rparr>"
    using assms(1) o1 unfolding mpsc_ok_def by (metis fst_conv, metis snd_conv)
  with assms(2) o1 show "see q1 = (see q)\<lparr>held := tl (held (see q))\<rparr>"
    "r = (case held (see q) of m # ms \<Rightarrow> Ready (Inr m)
      | [] \<Rightarrow> if tx_alive (see q) then Pending else Ready (Inl UnboundedRecvError))"
    by (auto simp: unbounded_recv_def split: list.splits if_splits)
qed

lemma mpsc_ends:
  assumes "mpsc_ok C see"
  shows "see (mp_close C q) = (see q)\<lparr>held := [], rx_alive := False\<rparr>"
    and "see (mp_hang_up C q) = (see q)\<lparr>tx_alive := False\<rparr>"
    and "see (unbounded C) = \<lparr>held = [], rx_alive = True, tx_alive = True\<rparr>"
  using assms by (simp_all add: mpsc_ok_def unbounded_def)

text \<open>What the handlers of the loop do to the client's channel: they add at its end.\<close>

lemma handle_swarm_event_channel:
  assumes "mpsc_ok E see" "handle_swarm_event A E event st q = (r, st1, q1)"
  shows "\<exists>new. see q1 = (see q)\<lparr>held := held (see q) @ new\<rparr>"
proof (cases "\<exists>topic data. event = SwBehaviour (NbGossip (MsgReceived topic data))")
  case True
  then obtain topic data where event: "event = SwBehaviour (NbGossip (MsgReceived topic data))" by blast
  obtain r1 q2 where send: "unbounded_send E (ClientMsgReceived topic data) q = (r1, q2)" by force
  with assms(2) have "q1 = q2"
    by (auto simp: event handle_swarm_event_def handle_event_def split: sum.splits)
  with unbounded_send_ok(2) [OF assms(1), of "ClientMsgReceived topic data" q] send show ?thesis
    by (cases "rx_alive (see q)") (auto intro: exI [of _ "[]"])
next
  case False
  then have "q1 = q"
    using assms(2) by (auto simp: handle_swarm_event_def handle_event_def split: swarm_event.splits
        node_behaviour_event.splits gossip_event.splits mdns_event.splits rdvz_event.splits option.splits prod.splits)
  then show ?thesis by (intro exI [of _ "[]"]) simp
qed

section \<open>What every step keeps\<close>

text \<open>
  The channels end with the loop, the client's receiver never does, and the flags follow the
  task of \<open>execute\<close>.
\<close>

definition life_ok where
  "life_ok seeC seeE s \<longleftrightarrow>
     (ns_loop s = None \<longleftrightarrow> \<not> rx_alive (seeC (ns_commands s))) \<and> tx_alive (seeC (ns_commands s)) \<and>
     (ns_loop s = None \<longleftrightarrow> \<not> tx_alive (seeE (ns_events s))) \<and> rx_alive (seeE (ns_events s)) \<and>
     (receiver_spawned s \<longleftrightarrow> ns_handler s \<noteq> NotSpawned) \<and>
     (kill_resp s \<longleftrightarrow> ns_handler s \<in> {NotSpawned, Starting}) \<and>
     (kill_sent s \<longrightarrow> \<not> kill_req s) \<and>
     (is_killed s \<longrightarrow> kill_sent s \<and> ns_handler s = Ended)"

lemma life_ok_started:
  "mpsc_ok C seeC \<Longrightarrow> mpsc_ok E seeE \<Longrightarrow> life_ok seeC seeE (node_started C E st)"
  by (simp add: life_ok_def node_started_def mpsc_ends(3))

text \<open>The parts of a state that the event loop and the client's task do not share.\<close>

definition handler_part where
  "handler_part s = (receiver_spawned s, is_killed s, kill_req s, kill_resp s, kill_sent s, ns_handler s,
     ns_shutdowns s, ns_delivered s)"

text \<open>The stream of events: what the client was given and what waits for it.\<close>

definition event_stream where
  "event_stream seeE s = ns_delivered s @ held (seeE (ns_events s))"

lemma end_loop_step:
  assumes "mpsc_ok C seeC" "mpsc_ok E seeE"
  shows "ns_loop (end_loop C E s) = None" "handler_part (end_loop C E s) = handler_part s"
    and "seeC (ns_commands (end_loop C E s)) = (seeC (ns_commands s))\<lparr>held := [], rx_alive := False\<rparr>"
    and "seeE (ns_events (end_loop C E s)) = (seeE (ns_events s))\<lparr>tx_alive := False\<rparr>"
  by (simp_all add: end_loop_def handler_part_def mpsc_ends(1) [OF assms(1)] mpsc_ends(2) [OF assms(2)])

text \<open>
  A turn of the loop ends it, and the channels with it, or keeps the channels open; it adds
  events at the end of the client's channel.
\<close>

definition loop_keeps where
  "loop_keeps seeC seeE s s' \<longleftrightarrow>
     handler_part s' = handler_part s \<and> tx_alive (seeC (ns_commands s')) = tx_alive (seeC (ns_commands s)) \<and>
     rx_alive (seeC (ns_commands s')) = (ns_loop s' \<noteq> None \<and> rx_alive (seeC (ns_commands s))) \<and>
     tx_alive (seeE (ns_events s')) = (ns_loop s' \<noteq> None \<and> tx_alive (seeE (ns_events s))) \<and>
     rx_alive (seeE (ns_events s')) = rx_alive (seeE (ns_events s)) \<and>
     (\<exists>new. held (seeE (ns_events s')) = held (seeE (ns_events s)) @ new)"

lemma loop_command_keeps:
  assumes "mpsc_ok C seeC" "mpsc_ok E seeE" "ns_loop s = Some st" "loop_command A C E st s = Some s'"
  shows "loop_keeps seeC seeE s s'"
proof -
  obtain r q where recv: "unbounded_recv C (ns_commands s) = (r, q)" by force
  note q = unbounded_recv_ok(1) [OF assms(1) recv]
  show ?thesis
  proof (cases "\<exists>c. r = Ready (Inr c)")
    case False
    then have "s' = s \<or> s' = s\<lparr>ns_commands := q\<rparr>"
      using assms(4) recv by (auto simp: loop_command_def split: poll.splits sum.splits)
    with assms(3) q show ?thesis by (auto simp: loop_keeps_def handler_part_def)
  next
    case True
    then obtain c where c: "r = Ready (Inr c)" by blast
    with assms(4) recv obtain p where "handle_command A c st = Some p"
      by (cases "handle_command A c st") (simp_all add: loop_command_def)
    moreover obtain r1 st1 where "p = (r1, st1)" by force
    ultimately have s': "s' = (if r1 = Inr False then s\<lparr>ns_commands := q, ns_loop := Some st1\<rparr>
        else end_loop C E (s\<lparr>ns_commands := q\<rparr>))"
      using assms(4) recv c by (simp add: loop_command_def)
    show ?thesis
    proof (cases "r1 = Inr False")
      case True
      then have "s' = s\<lparr>ns_commands := q, ns_loop := Some st1\<rparr>" using s' by simp
      with q show ?thesis by (auto simp: loop_keeps_def handler_part_def)
    next
      case False
      then have "s' = end_loop C E (s\<lparr>ns_commands := q\<rparr>)" using s' by simp
      with q show ?thesis
        by (simp add: loop_keeps_def end_loop_step [OF assms(1,2)]) (simp add: handler_part_def)
    qed
  qed
qed

lemma loop_event_keeps:
  assumes "mpsc_ok C seeC" "mpsc_ok E seeE" "ns_loop s = Some st"
  shows "loop_keeps seeC seeE s (loop_event A C E st s)"
proof -
  obtain o1 sw where next': "sw_next A (swarm st) = (o1, sw)" by force
  show ?thesis
  proof (cases o1)
    case None
    with next' show ?thesis by (auto simp: loop_event_def loop_keeps_def handler_part_def)
  next
    case (Some event)
    obtain r st1 q where handled: "handle_swarm_event A E event (st\<lparr>swarm := sw\<rparr>) (ns_events s) = (r, st1, q)"
      by (metis prod.exhaust)
    from handle_swarm_event_channel [OF assms(2) handled] obtain new where
      q: "seeE q = (seeE (ns_events s))\<lparr>held := held (seeE (ns_events s)) @ new\<rparr>" by blast
    show ?thesis
    proof (cases r)
      case (Inr u)
      with next' Some handled have "loop_event A C E st s = s\<lparr>ns_loop := Some st1, ns_events := q\<rparr>"
        by (simp add: loop_event_def)
      with q show ?thesis by (auto simp: loop_keeps_def handler_part_def)
    next
      case (Inl e)
      with next' Some handled have "loop_event A C E st s = end_loop C E (s\<lparr>ns_events := q\<rparr>)"
        by (simp add: loop_event_def)
      with q show ?thesis
        by (simp add: loop_keeps_def end_loop_step [OF assms(1,2)]) (simp add: handler_part_def)
    qed
  qed
qed

lemma life_ok_loop:
  assumes "life_ok seeC seeE s" "ns_loop s = Some st" "loop_keeps seeC seeE s s'"
  shows "life_ok seeC seeE s'"
  using assms unfolding life_ok_def loop_keeps_def handler_part_def by auto

lemma held_none [simp]: "held x = [] \<Longrightarrow> x\<lparr>held := []\<rparr> = x"
  by (cases x) simp

text \<open>What one poll of the client's task finds.\<close>

lemma handler_poll_cases:
  assumes "mpsc_ok E seeE"
  obtains (event) ev evs q where "held (seeE (ns_events s)) = ev # evs" "seeE q = (seeE (ns_events s))\<lparr>held := evs\<rparr>"
      "handler_poll E s = s\<lparr>ns_events := q, ns_handler := Handling ev, ns_delivered := ns_delivered s @ [ev]\<rparr>"
  | (closed) q where "held (seeE (ns_events s)) = []" "\<not> tx_alive (seeE (ns_events s))"
      "seeE q = seeE (ns_events s)" "handler_poll E s = s\<lparr>ns_events := q, ns_handler := Ended\<rparr>"
  | (signal) "held (seeE (ns_events s)) = []" "tx_alive (seeE (ns_events s))" "kill_sent s"
      "handler_poll E s = s\<lparr>is_killed := True, ns_handler := Ended\<rparr>"
  | (pending) "held (seeE (ns_events s)) = []" "tx_alive (seeE (ns_events s))" "\<not> kill_sent s" "handler_poll E s = s"
proof -
  obtain r q where recv: "unbounded_recv E (ns_events s) = (r, q)" by force
  note ok = unbounded_recv_ok [OF assms recv]
  show ?thesis
  proof (cases "held (seeE (ns_events s))")
    case Nil
    with ok recv show ?thesis
      by (cases "tx_alive (seeE (ns_events s))"; cases "kill_sent s")
        (auto simp: handler_poll_def intro: closed signal pending)
  next
    case (Cons ev evs)
    with ok recv show ?thesis by (auto simp: handler_poll_def intro!: event)
  qed
qed

lemma node_step_keeps:
  assumes "node_step A C E s s'" "mpsc_ok C seeC" "mpsc_ok E seeE" "life_ok seeC seeE s"
  shows "life_ok seeC seeE s' \<and> (\<exists>new. event_stream seeE s' = event_stream seeE s @ new)"
  using assms(1)
proof cases
  case (command_turn st)
  from loop_command_keeps [OF assms(2,3) this] have keeps: "loop_keeps seeC seeE s s'" .
  with life_ok_loop [OF assms(4) command_turn(1) keeps] show ?thesis
    by (auto simp: event_stream_def loop_keeps_def handler_part_def)
next
  case (event_turn st)
  from loop_event_keeps [OF assms(2,3) event_turn(2)] have keeps: "loop_keeps seeC seeE s s'"
    by (simp add: event_turn(1))
  with life_ok_loop [OF assms(4) event_turn(2) keeps] show ?thesis
    by (auto simp: event_stream_def loop_keeps_def handler_part_def)
next
  case (send_turn command)
  then show ?thesis
    using assms(4) unbounded_send_ok(2) [OF assms(2), of command "ns_commands s"]
    by (auto simp: life_ok_def event_stream_def)
next
  case execute_turn
  then show ?thesis using assms(4) by (auto simp: execute_def life_ok_def event_stream_def split: if_splits)
next
  case start_turn
  then show ?thesis using assms(4) by (auto simp: handler_start_def life_ok_def event_stream_def)
next
  case poll_turn
  show ?thesis
    by (rule handler_poll_cases [OF assms(3), of s])
      (use poll_turn assms(4) in \<open>auto simp: life_ok_def event_stream_def\<close>)
next
  case (done_turn event ok)
  then show ?thesis using assms(4) by (auto simp: handler_done_def life_ok_def event_stream_def)
next
  case shutdown_turn
  obtain r q where send: "unbounded_send C CmdShutdown (ns_commands s) = (r, q)" by force
  with unbounded_send_ok(2) [OF assms(2), of CmdShutdown "ns_commands s"] show ?thesis
    using assms(4) by (cases r) (auto simp: shutdown_turn shutdown_send_def life_ok_def event_stream_def)
next
  case signal_turn
  then show ?thesis using assms(4) by (auto simp: shutdown_signal_def life_ok_def event_stream_def)
qed

lemma node_steps_keep:
  "node_steps A C E s s' \<Longrightarrow> mpsc_ok C seeC \<Longrightarrow> mpsc_ok E seeE \<Longrightarrow> life_ok seeC seeE s \<Longrightarrow>
     life_ok seeC seeE s' \<and> (\<exists>new. event_stream seeE s' = event_stream seeE s @ new)"
proof (induction rule: node_steps.induct)
  case (more_steps s s1 s2)
  with node_step_keeps [of A C E s s1 seeC seeE] show ?case by force
qed simp

section \<open>Properties\<close>

text \<open>
  C2: However the tasks of a node and its client interleave, the events the client has been given
  followed by those that wait for it only ever grow at the end: each event the loop passes on is
  handed over once, in order, and none is lost before the client stops taking them.
\<close>

theorem events_reach_client_in_order:
  assumes "mpsc_ok C seeC" "mpsc_ok E seeE"
    and "node_steps A C E (node_started C E st) s" "node_steps A C E s s'"
  shows "\<exists>new. ns_delivered s' @ held (seeE (ns_events s')) = ns_delivered s @ held (seeE (ns_events s)) @ new"
proof -
  have "life_ok seeC seeE s" using node_steps_keep [OF assms(3,1,2) life_ok_started [OF assms(1,2)]] by blast
  from node_steps_keep [OF assms(4,1,2) this] show ?thesis by (simp add: event_stream_def)
qed

text \<open>
  C18: In every state a node can reach: it is down only after the signal of a \<open>shutdown\<close> came and
  the client's task has ended; \<open>execute\<close> panics exactly when it was called before, and the task
  it starts always finds the signal's receiver, so the error of a node already down is never
  reported; and a command can be sent exactly as long as the event loop runs.
\<close>

theorem node_flags:
  assumes "mpsc_ok C seeC" "mpsc_ok E seeE" "node_steps A C E (node_started C E st) s"
  shows "(is_down s \<longrightarrow> kill_sent s \<and> \<not> kill_req s \<and> ns_handler s = Ended) \<and>
    (execute s = Panic \<longleftrightarrow> ns_handler s \<noteq> NotSpawned) \<and>
    (ns_handler s = Starting \<longrightarrow> ns_handler (handler_start s) = Waiting) \<and>
    (fst (unbounded_send C command (ns_commands s)) = Inr () \<longleftrightarrow> ns_loop s \<noteq> None)"
proof -
  have "life_ok seeC seeE s" using node_steps_keep [OF assms(3,1,2) life_ok_started [OF assms(1,2)]] by blast
  then show ?thesis
    using unbounded_send_ok(1) [OF assms(1), of command "ns_commands s"]
    by (auto simp: life_ok_def is_down_def execute_def handler_start_def)
qed

text \<open>Once the loop has ended nothing starts it again and nothing is added to the stream.\<close>

lemma dead_step:
  assumes "node_step A C E s s'" "mpsc_ok C seeC" "mpsc_ok E seeE" "ns_loop s = None"
  shows "ns_loop s' = None \<and> event_stream seeE s' = event_stream seeE s"
  using assms(1)
proof cases
  case poll_turn
  show ?thesis
    by (rule handler_poll_cases [OF assms(3), of s]) (use poll_turn assms(4) in \<open>auto simp: event_stream_def\<close>)
next
  case shutdown_turn
  then show ?thesis using assms(4)
    by (auto simp: shutdown_send_def event_stream_def split: prod.splits sum.splits)
qed (use assms(4) in \<open>auto simp: execute_def handler_start_def handler_done_def shutdown_signal_def
  event_stream_def split: if_splits\<close>)

lemma dead_steps:
  "node_steps A C E s s' \<Longrightarrow> mpsc_ok C seeC \<Longrightarrow> mpsc_ok E seeE \<Longrightarrow> ns_loop s = None \<Longrightarrow>
     ns_loop s' = None \<and> event_stream seeE s' = event_stream seeE s"
proof (induction rule: node_steps.induct)
  case (more_steps s s1 s2)
  with dead_step [of A C E s s1 seeC seeE] show ?case by simp
qed simp

text \<open>
  C1: A command whose address does not parse ends the node: the turn that takes it ends the event
  loop, and in every later state the loop has ended, every command is refused and the client is
  given no event but those it already had waiting. Nothing tells the client of the error.
\<close>

theorem bad_address_ends_node:
  assumes "mpsc_ok C seeC" "mpsc_ok E seeE" "node_steps A C E (node_started C E st0) s"
    and "ns_loop s = Some st" "held (seeC (ns_commands s)) = command # rest"
    and "command \<in> {CmdDial text, CmdListenViaRelay text}" "ma_parse (na_addr A) text = None"
  shows "\<exists>s'. loop_command A C E st s = Some s' \<and> (\<forall>s''. node_steps A C E s' s'' \<longrightarrow>
    ns_loop s'' = None \<and> fst (unbounded_send C later_command (ns_commands s'')) = Inl later_command \<and>
    (\<exists>waiting. ns_delivered s @ held (seeE (ns_events s)) = ns_delivered s'' @ waiting))"
proof -
  have ok: "life_ok seeC seeE s" using node_steps_keep [OF assms(3,1,2) life_ok_started [OF assms(1,2)]] by blast
  obtain r q where recv: "unbounded_recv C (ns_commands s) = (r, q)" by force
  with unbounded_recv_ok(2) [OF assms(1) recv] assms(5) have r: "r = Ready (Inr command)" by simp
  have "handle_command A command st = Some (Inl InvalidMultiaddr, st)"
    using assms(6,7) by (auto simp: handle_command_def with_multiaddr_def carry_on_def Let_def)
  with recv r have turn: "loop_command A C E st s = Some (end_loop C E (s\<lparr>ns_commands := q\<rparr>))" (is "_ = Some ?s'")
    by (simp add: loop_command_def)
  have dead: "ns_loop ?s' = None" and stream: "event_stream seeE ?s' = event_stream seeE s"
    using end_loop_step [OF assms(1,2), of "s\<lparr>ns_commands := q\<rparr>"]
    by (simp_all add: event_stream_def handler_part_def)
  from loop_command_keeps [OF assms(1,2,4) turn] have ok': "life_ok seeC seeE ?s'"
    by (rule life_ok_loop [OF ok assms(4)])
  have "ns_loop s'' = None \<and> fst (unbounded_send C later_command (ns_commands s'')) = Inl later_command \<and>
      (\<exists>waiting. ns_delivered s @ held (seeE (ns_events s)) = ns_delivered s'' @ waiting)"
    if "node_steps A C E ?s' s''" for s''
  proof -
    from dead_steps [OF that assms(1,2) dead] stream have "ns_loop s'' = None"
      and "ns_delivered s @ held (seeE (ns_events s)) = ns_delivered s'' @ held (seeE (ns_events s''))"
      by (simp_all add: event_stream_def)
    moreover from this(1) node_steps_keep [OF that assms(1,2) ok'] have "\<not> rx_alive (seeC (ns_commands s''))"
      by (simp add: life_ok_def)
    ultimately show ?thesis using unbounded_send_ok(1) [OF assms(1), of later_command "ns_commands s''"] by auto
  qed
  with turn show ?thesis by blast
qed

text \<open>A client's task that has ended without the signal never reports the node down.\<close>

lemma ended_never_down:
  "node_steps A C E s s' \<Longrightarrow> receiver_spawned s \<Longrightarrow> ns_handler s = Ended \<Longrightarrow> \<not> is_killed s \<Longrightarrow>
     mpsc_ok C seeC \<Longrightarrow> mpsc_ok E seeE \<Longrightarrow> \<not> is_killed s'"
proof (induction rule: node_steps.induct)
  case (more_steps s s1 s2)
  have "receiver_spawned s1 \<and> ns_handler s1 = Ended \<and> \<not> is_killed s1"
    using more_steps.hyps(1)
  proof cases
    case (command_turn st)
    from loop_command_keeps [OF more_steps.prems(4,5) this] more_steps.prems show ?thesis
      by (simp add: loop_keeps_def handler_part_def)
  next
    case (event_turn st)
    have "loop_keeps seeC seeE s s1"
      using loop_event_keeps [OF more_steps.prems(4,5) event_turn(2)] event_turn(1) by simp
    with more_steps.prems show ?thesis by (simp add: loop_keeps_def handler_part_def)
  qed (use more_steps.prems in \<open>auto simp: execute_def shutdown_send_def shutdown_signal_def
    split: prod.splits sum.splits\<close>)
  with more_steps show ?case by blast
qed simp

text \<open>
  C3: From a state in which the node is idle and its client waits for events, a call of
  \<open>shutdown\<close> that completes can lead to a node that is down, and it can as well lead to one that
  never will be: when the event loop ends before the client's task sees the signal, the task ends
  with the closed event channel and no later step sets the flag that \<open>is_down\<close> reads. A client
  that waits for \<open>is_down\<close>, as the example program does, then waits for ever.
\<close>

theorem shutdown_may_go_unreported:
  assumes "mpsc_ok C seeC" "mpsc_ok E seeE" "node_steps A C E (node_started C E st0) s"
    and "ns_loop s = Some st" "ns_handler s = Waiting" "ns_shutdowns s = 0" "kill_req s"
    and "held (seeC (ns_commands s)) = []" "held (seeE (ns_events s)) = []"
  shows "(\<exists>s'. node_steps A C E s s' \<and> is_down s') \<and>
    (\<exists>s'. node_steps A C E s s' \<and> ns_shutdowns s' = 0 \<and> \<not> kill_req s' \<and>
      (\<forall>s''. node_steps A C E s' s'' \<longrightarrow> \<not> is_down s''))"
proof -
  have ok: "life_ok seeC seeE s" using node_steps_keep [OF assms(3,1,2) life_ok_started [OF assms(1,2)]] by blast
  obtain r q where send: "unbounded_send C CmdShutdown (ns_commands s) = (r, q)" by force
  from unbounded_send_ok [OF assms(1), of CmdShutdown "ns_commands s"] send ok assms(4,8)
  have r: "r = Inr ()" and q: "held (seeC q) = [CmdShutdown]" by (auto simp: life_ok_def)
  let ?s1 = "s\<lparr>ns_commands := q, ns_shutdowns := 1\<rparr>"
  have "shutdown_send C s = ?s1" by (simp add: shutdown_send_def send r assms(6))
  with shutdown_turn have s1: "node_steps A C E s ?s1" by (metis node_steps_one)
  have idle: "\<not> is_killed s" "\<not> kill_sent s" "tx_alive (seeE (ns_events s))" "receiver_spawned s"
    using ok assms(4,5,7) by (auto simp: life_ok_def)
  let ?s2 = "?s1\<lparr>ns_shutdowns := 0, kill_sent := True, kill_req := False\<rparr>"
  have "node_step A C E ?s1 (shutdown_signal ?s1)" by (rule signal_turn) simp
  moreover have "shutdown_signal ?s1 = ?s2" by (simp add: shutdown_signal_def assms(5,7))
  ultimately have s2: "node_steps A C E s ?s2" using node_steps_trans [OF s1 node_steps_one] by simp
  have "is_killed (handler_poll E ?s2)"
    by (rule handler_poll_cases [OF assms(2), of ?s2]) (use assms(9) idle in simp_all)
  moreover have "node_step A C E ?s2 (handler_poll E ?s2)" by (rule poll_turn) (simp add: assms(5))
  ultimately have first: "\<exists>s'. node_steps A C E s s' \<and> is_down s'"
    using node_steps_trans [OF s2 node_steps_one] unfolding is_down_def by blast
  obtain r3 q3 where recv: "unbounded_recv C q = (r3, q3)" by force
  with unbounded_recv_ok(2) [OF assms(1) recv] q have "r3 = Ready (Inr CmdShutdown)" by simp
  then have turn: "loop_command A C E st ?s1 = Some (end_loop C E (?s1\<lparr>ns_commands := q3\<rparr>))" (is "_ = Some ?s3")
    using recv by (simp add: loop_command_def handle_command_def Let_def)
  have "node_step A C E ?s1 ?s3" by (rule command_turn [OF _ turn]) (simp add: assms(4))
  from node_steps_trans [OF s1 node_steps_one [OF this]] have s3: "node_steps A C E s ?s3" .
  have ended: "held (seeE (ns_events ?s3)) = []" "\<not> tx_alive (seeE (ns_events ?s3))"
    "handler_part ?s3 = handler_part ?s1"
    using end_loop_step [OF assms(1,2), of "?s1\<lparr>ns_commands := q3\<rparr>"] assms(9) by (simp_all add: handler_part_def)
  let ?s4 = "handler_poll E ?s3" and ?s5 = "shutdown_signal (handler_poll E ?s3)"
  have s4: "ns_handler ?s4 = Ended \<and> \<not> is_killed ?s4 \<and> receiver_spawned ?s4 \<and> ns_shutdowns ?s4 = 1"
    by (rule handler_poll_cases [OF assms(2), of ?s3]) (use ended idle in \<open>simp_all add: handler_part_def\<close>)
  have "node_step A C E ?s3 ?s4" by (rule poll_turn) (use ended assms(5) in \<open>simp add: handler_part_def\<close>)
  moreover have "node_step A C E ?s4 ?s5" by (rule signal_turn) (metis s4 zero_less_one)
  ultimately have s5: "node_steps A C E s ?s5"
    using node_steps_trans [OF s3 node_steps_trans [OF node_steps_one node_steps_one]] by blast
  have "ns_handler ?s5 = Ended" "\<not> is_killed ?s5" "receiver_spawned ?s5" "ns_shutdowns ?s5 = 0" "\<not> kill_req ?s5"
    using s4 by (simp_all only: shutdown_signal_def node_sys.simps) simp_all
  with ended_never_down [of A C E ?s5 _ seeC seeE] assms(1,2) s5 have
    "\<exists>s'. node_steps A C E s s' \<and> ns_shutdowns s' = 0 \<and> \<not> kill_req s' \<and>
      (\<forall>s''. node_steps A C E s' s'' \<longrightarrow> \<not> is_down s'')"
    unfolding is_down_def by blast
  with first show ?thesis by blast
qed

section \<open>An example\<close>

definition sample_cmds :: "((unit, unit) command, (unit, unit) command contents) mpsc_api" where
  "sample_cmds = list_mpsc"

definition sample_evs :: "(string client_event, string client_event contents) mpsc_api" where
  "sample_evs = list_mpsc"

lemma sample_channels_ok: "mpsc_ok sample_cmds id" "mpsc_ok sample_evs id"
  by (simp_all add: sample_cmds_def sample_evs_def list_mpsc_ok)

definition sample_started ::
    "(nat, nat protocol list, string, string) swarm_event list
      \<Rightarrow> ((sample_swarm, nat protocol list) node_inner, (unit, unit) command contents,
          string client_event contents, string) node_sys" where
  "sample_started evs = node_started sample_cmds sample_evs (sample_inner evs)"

definition sample_waiting where
  "sample_waiting = handler_start (returned (execute (sample_started [])))"

lemma sample_waiting_reached:
  "node_steps sample_node sample_cmds sample_evs (sample_started []) sample_waiting"
proof -
  have "execute (sample_started []) = Ret (returned (execute (sample_started [])))"
    by (simp add: execute_def sample_started_def node_started_def)
  then have "node_step sample_node sample_cmds sample_evs (sample_started []) (returned (execute (sample_started [])))"
    by (rule execute_turn)
  moreover have "node_step sample_node sample_cmds sample_evs (returned (execute (sample_started []))) sample_waiting"
    unfolding sample_waiting_def by (rule start_turn) (simp add: execute_def sample_started_def node_started_def)
  ultimately show ?thesis by (blast intro: node_steps.intros)
qed

lemmas sample_life_eval = sample_started_def node_started_def unbounded_def sample_cmds_def sample_evs_def
  list_mpsc_def

lemma events_reach_client_in_order_witness:
  "\<exists>s' new. node_steps sample_node sample_cmds sample_evs
       (sample_started [SwBehaviour (NbGossip (MsgReceived ''t'' [1]))]) s' \<and>
     ns_delivered s' @ held (ns_events s') = [] @ new \<and> new = [ClientMsgReceived ''t'' [1]]"
proof -
  let ?s = "sample_started [SwBehaviour (NbGossip (MsgReceived ''t'' [1]))]"
  let ?st = "sample_inner [SwBehaviour (NbGossip (MsgReceived ''t'' [1]))]"
  let ?s' = "loop_event sample_node sample_cmds sample_evs ?st ?s"
  have "node_step sample_node sample_cmds sample_evs ?s ?s'"
    by (rule event_turn) (simp add: sample_started_def node_started_def)
  then have run: "node_steps sample_node sample_cmds sample_evs ?s ?s'" by (rule node_steps_one)
  have next': "sw_next sample_node (swarm ?st) = (Some (SwBehaviour (NbGossip (MsgReceived ''t'' [1]))), swarm (sample_inner []))"
    by (simp add: sample_node_def sample_inner_def)
  have after: "ns_delivered ?s' = []" "held (ns_events ?s') = [ClientMsgReceived ''t'' [1]]"
    by (simp_all add: loop_event_def next' handle_swarm_event_def handle_event_def unbounded_send_def Let_def
        sample_life_eval)
  have start: "node_steps sample_node sample_cmds sample_evs (node_started sample_cmds sample_evs ?st) ?s"
    unfolding sample_started_def by (rule no_step)
  have "\<exists>new. ns_delivered ?s' @ held (ns_events ?s') = ns_delivered ?s @ held (ns_events ?s) @ new"
    using events_reach_client_in_order [OF sample_channels_ok start run] by simp
  with run after show ?thesis by (intro exI [of _ ?s']) (simp add: sample_started_def node_started_def unbounded_def sample_evs_def list_mpsc_def)
qed

lemma node_flags_witness:
  "ns_handler sample_waiting = Waiting \<and> execute sample_waiting = Panic \<and> \<not> is_down sample_waiting"
proof -
  have waiting: "ns_handler sample_waiting = Waiting"
    by (simp add: sample_waiting_def handler_start_def execute_def sample_started_def node_started_def)
  with node_flags [OF sample_channels_ok sample_waiting_reached [unfolded sample_started_def], of CmdShutdown] show ?thesis
    by auto
qed

lemma bad_address_ends_node_witness:
  "\<exists>s s'. node_steps sample_node sample_cmds sample_evs (sample_started []) s \<and>
     loop_command sample_node sample_cmds sample_evs (sample_inner []) s = Some s' \<and> ns_loop s' = None"
proof -
  let ?s = "(sample_started [])\<lparr>ns_commands := snd (unbounded_send sample_cmds (CmdDial ''x'') (ns_commands (sample_started [])))\<rparr>"
  have run: "node_steps sample_node sample_cmds sample_evs (node_started sample_cmds sample_evs (sample_inner [])) ?s"
    unfolding sample_started_def by (rule node_steps_one, rule send_turn)
  have "ns_loop ?s = Some (sample_inner [])" "held (id (ns_commands ?s)) = [CmdDial ''x'']"
    by (simp_all add: unbounded_send_def Let_def sample_life_eval)
  moreover have "ma_parse (na_addr sample_node) ''x'' = None" by (simp add: sample_node_def sample_lib_def list_lib_def)
  ultimately obtain s' where "loop_command sample_node sample_cmds sample_evs (sample_inner []) ?s = Some s'"
      "\<forall>s''. node_steps sample_node sample_cmds sample_evs s' s'' \<longrightarrow> ns_loop s'' = None"
    using bad_address_ends_node [OF sample_channels_ok run, of _ "CmdDial ''x''" "[]" "''x''"] by blast
  with run show ?thesis unfolding sample_started_def by (blast intro: no_step)
qed

lemma shutdown_may_go_unreported_witness:
  "\<exists>s'. node_steps sample_node sample_cmds sample_evs sample_waiting s' \<and> ns_shutdowns s' = 0 \<and> \<not> kill_req s' \<and>
     (\<forall>s''. node_steps sample_node sample_cmds sample_evs s' s'' \<longrightarrow> \<not> is_down s'')"
proof -
  have "ns_loop sample_waiting = Some (sample_inner [])" "ns_handler sample_waiting = Waiting"
    "ns_shutdowns sample_waiting = 0" "kill_req sample_waiting" "held (id (ns_commands sample_waiting)) = []"
    "held (id (ns_events sample_waiting)) = []"
    by (simp_all add: sample_waiting_def handler_start_def execute_def sample_life_eval)
  from shutdown_may_go_unreported [OF sample_channels_ok sample_waiting_reached [unfolded sample_started_def] this]
  show ?thesis by blast
qed

end
