(* ===== verification/NodeBuild.thy ===== *)
theory NodeBuild
  imports NodeLife Notify
begin

text \<open>
  \<open>src/node.rs\<close>, \<open>build_swarm\<close>, \<open>init\<close> and the operations on the client's state. The
  constructors of libp2p's behaviours and of its swarm are the fields of a \<open>build_api\<close>; the
  settings the source chooses are what they are given.
\<close>

section \<open>The constructors\<close>

text \<open>
  What the source sets of gossipsub's configuration: \<open>gc_message_id\<close> gives a message the hash of
  its data.
\<close>

record gossip_settings =
  gc_published_cache_time :: duration
  gc_duplicate_cache_time :: duration
  gc_message_id :: "bytes \<Rightarrow> string"
  gc_strict_validation :: bool
  gc_mesh_outbound_min :: nat
  gc_mesh_n_low :: nat
  gc_max_transmit_size :: nat

record kad_settings =
  kc_parallelism :: nat
  kc_replication_factor :: nat
  kc_server_mode :: bool

record swarm_settings =
  sc_dial_concurrency :: nat
  sc_idle_timeout :: duration

text \<open>
  \<open>bd_identity\<close> makes the keypair, of the seed when there is one, and may refuse the seed;
  \<open>bd_transport\<close> and \<open>bd_relay_client\<close> are the steps of the builder that can fail, and
  \<open>bd_gossipsub\<close> may refuse its settings. \<open>bd_hash\<close> is the decimal text of the default hash.
  \<open>bd_mdns_sender\<close> is the sending half of the channel that the mDNS behaviour makes.
\<close>

record ('y, 'i, 'g, 'k, 'd, 'id, 'dc, 're, 'mq, 'b, 's) build_api =
  bd_identity :: "bytes option \<Rightarrow> 'y option"
  bd_peer_id :: "'y \<Rightarrow> 'i"
  bd_transport :: bool
  bd_relay_client :: "'re option"
  bd_mdns_sender :: 'mq
  bd_rdvz_client :: "'y \<Rightarrow> 'k"
  bd_hash :: "bytes \<Rightarrow> string"
  bd_gossipsub :: "'y \<Rightarrow> gossip_settings \<Rightarrow> 'g option"
  bd_identify :: "string \<Rightarrow> 'y \<Rightarrow> 'id"
  bd_kad :: "'i \<Rightarrow> kad_settings \<Rightarrow> 'd"
  bd_dcutr :: "'i \<Rightarrow> 'dc"
  bd_swarm :: "'b \<Rightarrow> swarm_settings \<Rightarrow> 's"

datatype build_error =
    InvalidSeed
  | TransportFailed
  | RelayClientFailed
  | WatcherFailed
  | GossipsubFailed
  | CannotListen node_error

section \<open>\<open>build_swarm\<close>\<close>

text \<open>The parts of the closure of \<open>with_behaviour\<close>, in order.\<close>

definition mdns_config_of :: "('a, 'i) node_config \<Rightarrow> mdns_config" where
  "mdns_config_of c =
     config_query_interval
       (config_probe_interval (config_service_name mdns_config_default (config_of_mdns_service_name c))
         (config_of_mdns_probe_interval c))
       (config_of_mdns_query_interval c)"

definition build_mdns where
  "build_mdns M B me config w =
     (if config_of_enable_mdns config
      then and_then (mdns_new M (mdns_config_of config) me (bd_mdns_sender B) w)
        (\<lambda>(made, w1). Ret (case made of Some b \<Rightarrow> Inr (Some b) | None \<Rightarrow> Inl WatcherFailed, w1))
      else Ret (Inr None, w))"

definition build_rdvz where
  "build_rdvz A B key config =
     (if config_of_enable_rendezvous config
      then and_then (rdvz_new (na_rdvz A) (bd_rdvz_client B key) (bd_peer_id B key) (config_of_rendezvous_ttl config))
        (\<lambda>b. Ret (Some b))
      else Ret None)"

definition gossip_settings_of where
  "gossip_settings_of B =
     \<lparr>gc_published_cache_time = dur_from_secs 300, gc_duplicate_cache_time = dur_from_secs 300,
      gc_message_id = bd_hash B, gc_strict_validation = True, gc_mesh_outbound_min = 1,
      gc_mesh_n_low = 1, gc_max_transmit_size = 8 * 1024 * 1024\<rparr>"

fun add_bootstrap_nodes where
  "add_bootstrap_nodes K [] b = b"
| "add_bootstrap_nodes K ((peer, addr) # rest) b =
     add_bootstrap_nodes K rest (add_bootnodes peer addr (dht_add_address K peer addr b))"

definition build_dht where
  "build_dht A B key config =
     (if config_of_enable_dht config
      then and_then
        (dht_new (bd_kad B (bd_peer_id B key)
          \<lparr>kc_parallelism = 1, kc_replication_factor = 3, kc_server_mode = True\<rparr>) 1)
        (\<lambda>b. Ret (Some (add_bootstrap_nodes (na_kad A) (config_of_bootstrap_nodes config) b)))
      else Ret None)"

definition build_behaviour where
  "build_behaviour M (A :: (_, 'g, 'i, 'h, 'a, 'x, 'r, 'd, 'q, 'c, 'k, 't, 'n, 'co, 'e) node_api) B key relay config w =
     (let me = bd_peer_id B key
      in and_then (build_mdns M B me config w) (\<lambda>(mdns, w1).
         case mdns of
           Inl e \<Rightarrow> Ret (Inl e, w1)
         | Inr mdns_bhv \<Rightarrow>
             and_then (build_rdvz A B key config) (\<lambda>rdvz.
               case bd_gossipsub B key (gossip_settings_of B) of
                 None \<Rightarrow> Ret (Inl GossipsubFailed, w1)
               | Some gossipsub \<Rightarrow>
                   and_then (build_dht A B key config) (\<lambda>dht.
                     Ret (Inr \<lparr>nb_identify = bd_identify B ''/3exp8p2p/identify/1.0'' key,
                               nb_gossip = (gossip_new me gossipsub (config_of_enable_republish config)
                                 :: ('g, 'i, 'h) gossip_bhv),
                               nb_mdns = mdns_bhv, nb_rdvz = rdvz, nb_dht = dht,
                               nb_dcutr = (if config_of_enable_relay config then Some (bd_dcutr B me) else None),
                               nb_relay = (if config_of_enable_relay config then Some relay else None)\<rparr>, w1)))))"

definition build_swarm where
  "build_swarm M A B key config w =
     (if \<not> bd_transport B then Ret (Inl TransportFailed, w)
      else (case bd_relay_client B of
        None \<Rightarrow> Ret (Inl RelayClientFailed, w)
      | Some relay \<Rightarrow>
          and_then (build_behaviour M A B key relay config w) (\<lambda>(built, w1).
            Ret (case built of
                   Inl e \<Rightarrow> Inl e
                 | Inr b \<Rightarrow> Inr (bd_swarm B b \<lparr>sc_dial_concurrency = 1, sc_idle_timeout = dur_from_secs (86400 * 14)\<rparr>),
                 w1))))"

section \<open>The node\<close>

record ('a, 'i, 'st, 'tx, 'y) node =
  nd_config :: "('a, 'i) node_config"
  nd_peer_id :: 'i
  nd_state :: "('st, 'tx) subscribable_mutex"
  nd_sys :: 'y

text \<open>\<open>None\<close> when listening does not come to an end.\<close>

definition node_init where
  "node_init M A B C E initial config w =
     (case bd_identity B (config_of_seed config) of
        None \<Rightarrow> Some (Ret (Inl InvalidSeed))
      | Some key \<Rightarrow>
          (case build_swarm M A B key config w of
             Panic \<Rightarrow> Some Panic
           | Ret (Inl e, w1) \<Rightarrow> Some (Ret (Inl e))
           | Ret (Inr sw, w1) \<Rightarrow>
               map_option
                 (\<lambda>(listening, st).
                    Ret (case listening of
                           Inl e \<Rightarrow> Inl (CannotListen e)
                         | Inr _ \<Rightarrow> Inr \<lparr>nd_config = config, nd_peer_id = bd_peer_id B key,
                             nd_state = subscribable_new initial, nd_sys = node_started C E st\<rparr>))
                 (start_listen A \<lparr>swarm = sw, dialing_relays = {}\<rparr>)))"

definition modify_state where
  "modify_state tx_send cb nd w =
     and_then (modify tx_send cb (nd_state nd) w) (\<lambda>(m, w1). Ret (nd\<lparr>nd_state := m\<rparr>, w1))"

definition node_peer_id where
  "node_peer_id nd = nd_peer_id nd"

definition node_state where
  "node_state nd = cloned (nd_state nd)"

section \<open>What is built\<close>

lemma add_bootstrap_nodes_known:
  "bootnodes (add_bootstrap_nodes K ns b) p =
     (if p \<in> fst ` set ns \<or> bootnodes b p \<noteq> None
      then Some ((case bootnodes b p of Some as \<Rightarrow> as | None \<Rightarrow> {}) \<union> {a. (p, a) \<in> set ns}) else None)"
proof (induction K ns b rule: add_bootstrap_nodes.induct)
  case (2 K peer addr rest b)
  then show ?case
    by (cases "p = peer") (auto simp: add_bootnodes_def dht_add_address_def split: option.splits)
qed (simp split: option.splits)

lemma build_dht_returns: "build_dht A B key config = Ret (if nc_enable_dht config
    then Some (add_bootstrap_nodes (na_kad A) (nc_bootstrap_nodes config)
      (returned (dht_new (bd_kad B (bd_peer_id B key)
        \<lparr>kc_parallelism = 1, kc_replication_factor = 3, kc_server_mode = True\<rparr>) 1)))
    else None)"
  by (simp add: build_dht_def config_getters dht_new_def dht_backoff_new)

lemma dht_new_bootnodes: "bootnodes (returned (dht_new k n)) = Map.empty"
  by (simp add: dht_new_def dht_backoff_new)

lemma mdns_config_of_intervals:
  "cfg_query_interval (mdns_config_of c) = nc_mdns_query_interval c"
  "cfg_probe_interval (mdns_config_of c) = nc_mdns_probe_interval c"
  by (simp_all add: mdns_config_of_def config_query_interval_def config_probe_interval_def config_getters)

lemma rdvz_new_Panic:
  assumes "period_checked (rz_tokio R)"
  shows "rdvz_new R k me ttl = Panic \<longleftrightarrow> ttl = Some 0"
proof -
  have "dur_from_secs s = 0 \<longleftrightarrow> s = 0" for s by (simp add: dur_from_secs_def nanos_per_sec_def unat_eq_0)
  then have "ttl_duration ttl = 0 \<longleftrightarrow> ttl = Some 0" by (auto simp: ttl_duration_def split: option.splits)
  with timer_interval_at_Panic [OF assms] show ?thesis
    by (auto simp: rdvz_new_def Let_def split_beta and_then_eq_Panic)
qed

lemma build_mdns_Panic:
  "build_mdns M B p config w = Panic \<longleftrightarrow>
     nc_enable_mdns config \<and> nc_mdns_query_interval config \<le> nc_mdns_probe_interval config"
  by (auto simp: build_mdns_def config_getters mdns_new_def mdns_config_of_intervals and_then_eq_Panic
      split: prod.splits bool.splits)

lemma build_rdvz_Panic:
  "period_checked (rz_tokio (na_rdvz A)) \<Longrightarrow> build_rdvz A B key config = Panic \<longleftrightarrow>
     nc_enable_rendezvous config \<and> nc_rendezvous_ttl config = Some 0"
  by (auto simp: build_rdvz_def config_getters and_then_eq_Panic rdvz_new_Panic)

lemma build_mdns_Ret:
  "build_mdns M B p config w = Ret (r, w1) \<Longrightarrow>
     (r = Inl WatcherFailed \<and> nc_enable_mdns config \<and> \<not> fst (mb_watcher_new M w)) \<or>
     (\<exists>b. r = Inr b \<and> (b \<noteq> None \<longleftrightarrow> nc_enable_mdns config) \<and> (nc_enable_mdns config \<longrightarrow> fst (mb_watcher_new M w)))"
  by (auto simp: build_mdns_def config_getters mdns_new_def split: if_splits prod.splits bool.splits)

text \<open>
  C22: Building the node's behaviour panics exactly when mDNS is enabled with a probe interval
  that is not less than the query interval, or rendezvous is enabled with a TTL of zero (and the
  interface watcher, which comes before it, did not fail). With the intervals and the TTL that
  the builder of the configuration chooses by default it never panics.
\<close>

theorem build_behaviour_panics:
  assumes "period_checked (rz_tokio (na_rdvz A))"
  shows "(build_behaviour M A B key relay config w = Panic \<longleftrightarrow>
      (nc_enable_mdns config \<and> nc_mdns_query_interval config \<le> nc_mdns_probe_interval config) \<or>
      (nc_enable_rendezvous config \<and> nc_rendezvous_ttl config = Some 0 \<and>
       \<not> (nc_enable_mdns config \<and> \<not> fst (mb_watcher_new M w)))) \<and>
    (config_build L (cb\<lparr>cb_mdns_probe_interval := None, cb_mdns_query_interval := None, cb_rendezvous_ttl := None\<rparr>)
       = Ret config \<longrightarrow> build_behaviour M A B key relay config w \<noteq> Panic)"
proof -
  have iff: "build_behaviour M A B key relay config w = Panic \<longleftrightarrow>
      (nc_enable_mdns config \<and> nc_mdns_query_interval config \<le> nc_mdns_probe_interval config) \<or>
      (nc_enable_rendezvous config \<and> nc_rendezvous_ttl config = Some 0 \<and>
       \<not> (nc_enable_mdns config \<and> \<not> fst (mb_watcher_new M w)))"
  proof (cases "build_mdns M B (bd_peer_id B key) config w")
    case Panic
    then show ?thesis using build_mdns_Panic [of M B "bd_peer_id B key" config w]
      by (simp add: build_behaviour_def Let_def)
  next
    case (Ret rw)
    obtain r w1 where rw: "rw = (r, w1)" by force
    have no: "\<not> (nc_enable_mdns config \<and> nc_mdns_query_interval config \<le> nc_mdns_probe_interval config)"
      using Ret build_mdns_Panic [of M B "bd_peer_id B key" config w] by simp
    from build_mdns_Ret [of M B "bd_peer_id B key" config w r w1] Ret rw
    consider (failed) "r = Inl WatcherFailed" "nc_enable_mdns config" "\<not> fst (mb_watcher_new M w)"
      | (made) b where "r = Inr b" "nc_enable_mdns config \<longrightarrow> fst (mb_watcher_new M w)" by blast
    then show ?thesis
    proof cases
      case failed
      with Ret rw no show ?thesis by (simp add: build_behaviour_def Let_def)
    next
      case made
      with Ret rw no have "build_behaviour M A B key relay config w = Panic \<longleftrightarrow> build_rdvz A B key config = Panic"
        by (auto simp: build_behaviour_def Let_def and_then_eq_Panic build_dht_returns split: option.splits)
      with made no build_rdvz_Panic [OF assms, of B key config] show ?thesis by blast
    qed
  qed
  moreover have "nc_mdns_probe_interval config < nc_mdns_query_interval config \<and> nc_rendezvous_ttl config \<noteq> Some 0"
    if "config_build L (cb\<lparr>cb_mdns_probe_interval := None, cb_mdns_query_interval := None, cb_rendezvous_ttl := None\<rparr>) = Ret config"
    using that by (auto simp: config_build_def value_or_def dur_from_secs_def nanos_per_sec_def)
  ultimately show ?thesis by (meson linorder_not_less)
qed

lemma add_bootstrap_nodes_idle: "begin_bootstrap (add_bootstrap_nodes K ns b) = begin_bootstrap b"
  by (induction K ns b rule: add_bootstrap_nodes.induct) (simp_all add: add_bootnodes_def dht_add_address_def)

lemma build_dht_Ret:
  assumes "build_dht A B key config = Ret dht"
  shows "dht \<noteq> None \<longleftrightarrow> nc_enable_dht config"
    and "dht = Some d \<Longrightarrow> \<not> begin_bootstrap d \<and> bootnodes d p =
      (if p \<in> fst ` set (nc_bootstrap_nodes config) then Some {a. (p, a) \<in> set (nc_bootstrap_nodes config)} else None)"
proof -
  show "dht \<noteq> None \<longleftrightarrow> nc_enable_dht config" using assms by (auto simp: build_dht_returns split: if_splits)
  have idle: "\<not> begin_bootstrap (returned (dht_new k n))" for k n by (simp add: dht_new_def dht_backoff_new)
  assume "dht = Some d"
  with assms obtain k where "d = add_bootstrap_nodes (na_kad A) (nc_bootstrap_nodes config) (returned (dht_new k 1))"
    by (auto simp: build_dht_returns split: if_splits)
  then show "\<not> begin_bootstrap d \<and> bootnodes d p =
      (if p \<in> fst ` set (nc_bootstrap_nodes config) then Some {a. (p, a) \<in> set (nc_bootstrap_nodes config)} else None)"
    by (simp only: add_bootstrap_nodes_known dht_new_bootnodes add_bootstrap_nodes_idle idle) simp
qed

text \<open>
  C23: A behaviour that is built has exactly the parts the configuration enables, a gossip
  behaviour that republishes as configured and has no subscription, and a DHT that knows as boot
  nodes exactly the configured ones, with all their addresses, and does not bootstrap yet.
\<close>

theorem build_matches_config:
  assumes "build_behaviour M A B key relay config w = Ret (Inr b, w1)"
  shows "(nb_mdns b \<noteq> None \<longleftrightarrow> nc_enable_mdns config) \<and> (nb_rdvz b \<noteq> None \<longleftrightarrow> nc_enable_rendezvous config) \<and>
    (nb_dht b \<noteq> None \<longleftrightarrow> nc_enable_dht config) \<and> (nb_dcutr b \<noteq> None \<longleftrightarrow> nc_enable_relay config) \<and>
    (nb_relay b \<noteq> None \<longleftrightarrow> nc_enable_relay config) \<and>
    enable_republish (nb_gossip b) = nc_enable_republish config \<and> subscriptions (nb_gossip b) = {} \<and>
    (\<forall>d p. nb_dht b = Some d \<longrightarrow> \<not> begin_bootstrap d \<and>
       bootnodes d p = (if p \<in> fst ` set (nc_bootstrap_nodes config)
         then Some {a. (p, a) \<in> set (nc_bootstrap_nodes config)} else None))"
proof -
  obtain r w2 where "build_mdns M B (bd_peer_id B key) config w = Ret (r, w2)"
    using assms by (cases "build_mdns M B (bd_peer_id B key) config w") (auto simp: build_behaviour_def Let_def)
  moreover from this assms obtain mdns where "r = Inr mdns"
    by (cases r) (simp_all add: build_behaviour_def Let_def)
  ultimately have mdns: "build_mdns M B (bd_peer_id B key) config w = Ret (Inr mdns, w2)" by simp
  with assms obtain rdvz where rdvz: "build_rdvz A B key config = Ret rdvz"
    by (cases "build_rdvz A B key config") (simp_all add: build_behaviour_def Let_def)
  with mdns assms obtain gs where gs: "bd_gossipsub B key (gossip_settings_of B) = Some gs"
    by (cases "bd_gossipsub B key (gossip_settings_of B)") (simp_all add: build_behaviour_def Let_def)
  with mdns rdvz assms obtain dht where dht: "build_dht A B key config = Ret dht"
    by (cases "build_dht A B key config") (simp_all add: build_behaviour_def Let_def)
  have b: "b = \<lparr>nb_identify = bd_identify B ''/3exp8p2p/identify/1.0'' key,
        nb_gossip = gossip_new (bd_peer_id B key) gs (config_of_enable_republish config),
        nb_mdns = mdns, nb_rdvz = rdvz, nb_dht = dht,
        nb_dcutr = (if config_of_enable_relay config then Some (bd_dcutr B (bd_peer_id B key)) else None),
        nb_relay = (if config_of_enable_relay config then Some relay else None)\<rparr>"
    using mdns rdvz gs dht assms by (simp add: build_behaviour_def Let_def)
  have "mdns \<noteq> None \<longleftrightarrow> nc_enable_mdns config" using build_mdns_Ret [OF mdns] by auto
  moreover have "rdvz \<noteq> None \<longleftrightarrow> nc_enable_rendezvous config"
    using rdvz by (auto simp: build_rdvz_def config_getters split: if_splits)
  ultimately show ?thesis
    using build_dht_Ret [OF dht] by (simp add: b config_getters gossip_new_def)
qed

section \<open>An example\<close>

definition sample_build :: "(unit, nat, nat set, unit, unit, unit, unit, unit, unit, unit, unit) build_api" where
  "sample_build =
     \<lparr>bd_identity = \<lambda>seed. Some (), bd_peer_id = \<lambda>key. 1, bd_transport = True, bd_relay_client = Some (),
      bd_mdns_sender = (), bd_rdvz_client = \<lambda>key. (), bd_hash = \<lambda>data. [], bd_gossipsub = \<lambda>key c. Some {},
      bd_identify = \<lambda>protocol key. (), bd_kad = \<lambda>peer c. (), bd_dcutr = \<lambda>peer. (),
      bd_swarm = \<lambda>b c. ()\<rparr>"

definition sample_build_config :: "(nat protocol list, nat) node_config" where
  "sample_build_config = node_config_default\<lparr>nc_enable_rendezvous := True, nc_enable_dht := True,
     nc_bootstrap_nodes := [(7, [Tcp 1]), (7, [Tcp 2])]\<rparr>"

lemma build_behaviour_panics_witness:
  "build_behaviour sample_mdns sample_node sample_build () () (sample_build_config\<lparr>nc_rendezvous_ttl := Some 0\<rparr>) ([], [], [], 0)
     = Panic"
proof -
  have "period_checked (rz_tokio (na_rdvz sample_node))"
    by (simp add: period_checked_def sample_node_def sample_node_rdvz_def)
  from build_behaviour_panics [OF this, of sample_mdns sample_build "()" "()"
      "sample_build_config\<lparr>nc_rendezvous_ttl := Some 0\<rparr>" "([], [], [], 0)", THEN conjunct1, THEN iffD2]
  show ?thesis by (simp add: sample_build_config_def node_config_default_def)
qed

lemma build_matches_config_witness:
  "\<exists>b d. build_behaviour sample_mdns sample_node sample_build () () sample_build_config ([], [], [], 0) = Ret (Inr b, ([], [], [], 0)) \<and>
     nb_mdns b = None \<and> nb_dht b = Some d \<and> bootnodes d 7 = Some {[Tcp 1], [Tcp 2]}"
proof -
  have parts: "build_mdns sample_mdns sample_build p sample_build_config w = Ret (Inr None, w)"
    "bd_gossipsub sample_build key c = Some {}" "bd_peer_id sample_build key = 1" for p w key c
    by (simp_all add: build_mdns_def config_getters sample_build_config_def node_config_default_def sample_build_def)
  have "rz_tokio (na_rdvz sample_node) = \<lparr>tk_now = Pair 0, tk_interval_at = \<lambda>t d. if d = 0 then Panic else Ret (),
      tk_skip_missed = id, tk_poll_tick = \<lambda>t w. (False, t, w)\<rparr>"
    by (simp add: sample_node_def sample_node_rdvz_def)
  then obtain rb where rdvz: "build_rdvz sample_node sample_build () sample_build_config = Ret rb"
    by (simp add: build_rdvz_def config_getters sample_build_config_def node_config_default_def rdvz_new_def
        timer_interval_at_def ttl_duration_def dur_from_secs_def nanos_per_sec_def)
  obtain b where run: "build_behaviour sample_mdns sample_node sample_build () () sample_build_config ([], [], [], 0)
      = Ret (Inr b, ([], [], [], 0))"
    by (simp add: build_behaviour_def Let_def parts rdvz build_dht_returns)
  from build_matches_config [OF run] have "nb_mdns b = None" "nb_dht b \<noteq> None"
    and nodes: "nb_dht b = Some d \<Longrightarrow> bootnodes d 7 = Some {a. (7, a) \<in> set (nc_bootstrap_nodes sample_build_config)}" for d
    by (simp_all add: sample_build_config_def node_config_default_def)
  then obtain d where d: "nb_dht b = Some d" by blast
  have "{a. (7, a) \<in> set (nc_bootstrap_nodes sample_build_config)} = {[Tcp 1], [Tcp 2]}"
    by (auto simp: sample_build_config_def node_config_default_def)
  with nodes [OF d] have "bootnodes d 7 = Some {[Tcp 1], [Tcp 2]}" by simp
  with run \<open>nb_mdns b = None\<close> d show ?thesis by (intro exI conjI)
qed

end
