(* ===== verification/Spec2Isabelle.thy ===== *)
theory Spec2Isabelle
  imports Backoff Notify MdnsRoundTrip Gossip Dht Rendezvous MdnsBehaviour NodeCommands NodeBuild
begin

text \<open>
  A model of the peer-to-peer node library \<open>p2pa\<close> (Rust, \<open>src/\<close>) with the properties that make
  it correct. This theory only imports the others. Each opens with a text that says what it
  holds; what follows is the overview.

  \<^bold>\<open>The program.\<close> A client makes a \<open>Node\<close> from a \<open>Config\<close>. \<open>Node::init\<close> builds a libp2p swarm
  with the behaviours the configuration enables, starts to listen, and spawns the event loop of
  \<open>NodeInner\<close>. The client's calls put a \<open>Command\<close> into one unbounded channel, which the loop
  reads; the loop handles the swarm's events and puts an \<open>Event\<close> into another channel, which
  the task of \<open>Node::execute\<close> hands to the client. The behaviours are of the
  repository: gossip (publishing with retries over gossipsub), mDNS (discovery in the local
  network, with an encoder and a reader of DNS packets of its own), rendezvous and DHT
  (bootstrapping, put and get with retries over Kademlia).

  \<^bold>\<open>Theories, bottom up.\<close>
  \<^item> \<open>Prelude\<close>: machine integers, bytes, durations, panics (\<open>outcome\<close>), the standard
    library's operations on vectors; the conventions of all the theories.
  \<^item> \<open>AddrLib\<close>: the operations of multiaddresses and peer ids, and of IP addresses.
  \<^item> \<open>Backoff\<close>: \<open>ExponentialBackoff\<close> of \<open>utils.rs\<close>. \<open>Notify\<close>: \<open>SubscribableMutex\<close> of
    \<open>utils.rs\<close>. \<open>Timer\<close>: \<open>mdns_bhv/timer.rs\<close> and \<open>ProbeState\<close>.
  \<^item> \<open>DnsWire\<close>: the specification of the DNS wire format (RFC 1035), a writer and a reader
    composed by the locales \<open>wire_codec\<close> and \<open>wire_pair\<close>. \<open>DnsEncode\<close>: the encoder of
    \<open>mdns_bhv/iface/dns.rs\<close>. \<open>DnsCorrect\<close> and \<open>DnsResponse\<close>: the encoder writes what the
    specification reads, when it panics, how it packs records into packets, and their sizes.
  \<^item> \<open>MdnsConfig\<close>: \<open>mdns_bhv/config.rs\<close>. \<open>MdnsQuery\<close>: \<open>mdns_bhv/iface/query.rs\<close>.
    \<open>MdnsRoundTrip\<close>: both sides of address discovery composed.
  \<^item> \<open>MdnsIface\<close>: \<open>mdns_bhv/iface.rs\<close> and \<open>socket.rs\<close>, the task of an interface; a round of its
    loop is a sequence of the phases \<open>phase_timeout\<close>, \<open>phase_send\<close>, \<open>phase_discovered\<close> and
    \<open>phase_receive\<close>, in the order of the source. The locale \<open>observed_iface\<close> accounts for the
    packets and the discovered addresses by what the task learns from outside. \<open>MdnsBehaviour\<close>: \<open>mdns_bhv.rs\<close>, which
    starts and stops these tasks and keeps the list of discovered nodes.
  \<^item> \<open>PollLoop\<close>: what the three wrapping behaviours share, the loop over the wrapped behaviour's
    \<open>poll\<close> and the delegated callbacks, as the locales \<open>wrapped_behaviour\<close> and \<open>event_wrapper\<close>,
    which \<open>Gossip\<close> (\<open>gossip_bhv.rs\<close>), \<open>Dht\<close> (\<open>dht_bhv.rs\<close>) and \<open>Rendezvous\<close>
    (\<open>rendezvous_bhv.rs\<close>) interpret.
  \<^item> \<open>NodeConfig\<close>: \<open>config.rs\<close> and \<open>constants.rs\<close>. \<open>NodeApi\<close>: \<open>commands.rs\<close>, \<open>events.rs\<close>, the
    channel of \<open>utils.rs\<close> and the operations of \<open>Node\<close> that send commands. \<open>NodeInner\<close>: the
    handlers of the event loop (\<open>handle_command\<close>, \<open>handle_event\<close>, \<open>start_listen\<close>,
    \<open>handle_listen_via_relay\<close>) over \<open>behaviours.rs\<close>. \<open>NodeCommands\<close>: the
    outcome of a command and of the wait for a relay. \<open>NodeLife\<close>: the event loop, \<open>execute\<close> and
    \<open>shutdown\<close> as a step relation. \<open>NodeBuild\<close>: \<open>build_swarm\<close> and \<open>init\<close>.

  \<^bold>\<open>How the code is translated.\<close> A struct is a \<open>record\<close>, an enum a \<open>datatype\<close>, \<open>&mut self\<close> a
  state that is passed and returned. A loop whose end depends on the outside is a
  \<open>partial_function (option)\<close>: \<open>None\<close> is a loop that does not end, so no fuel is chosen anywhere,
  and the properties on termination say when it is \<open>Some\<close>. Tasks that run concurrently are the
  step relation \<open>node_step\<close>: a step is a turn of one task up to its next suspension, or a call of
  the client.

  \<^bold>\<open>The outside.\<close> libp2p, tokio, hickory, if-watch, the sockets, the clock and the random
  generator are arguments: records of operations (\<open>gossip_api\<close>, \<open>kad_api\<close>, \<open>rdvz_api\<close>,
  \<open>iface_api\<close>, \<open>mdns_api\<close>, \<open>mpsc_api\<close>, \<open>node_api\<close>, \<open>build_api\<close>, \<open>addr_lib\<close>, \<open>dns_lib\<close>,
  \<open>tokio_api\<close>) over abstract states. What a property assumes of them is a named predicate:
  \<open>mpsc_ok\<close> (a first-in first-out channel with a closing end), \<open>addr_lib_ok\<close> (multiaddresses are
  lists of protocols), \<open>rng_ok\<close> (the ranges of the draws), \<open>period_checked\<close> (tokio's interval
  panics exactly on the period zero), \<open>outside_ok\<close> and \<open>finite_input\<close> (the clock is in range and the sockets
  are not ready for ever), \<open>receiver_alive\<close> (the behaviour holds the end of the channel the
  interface tasks write to), \<open>memory_store\<close> (Kademlia's local store with its limits on values and
  keys), \<open>clock_passes\<close> (a clock that is read often enough passes an instant) and
  \<open>observes_external\<close>, \<open>observes_dials\<close>, \<open>observes_explicit\<close>, \<open>observes_tasks\<close> (an observation of the abstract
  state and the operations that change it). Each has an executable instance in its
  theory (the definitions named \<open>sample_\<close> and \<open>list_\<close>), on which the witnesses run.

  \<^bold>\<open>What is shown.\<close>
  \<^item> Life of a node: events reach the client complete and in order as far as the client has been
    given any; the flags of \<open>execute\<close> and \<open>shutdown\<close>; an error of a command ends the loop and
    with it the node; \<open>shutdown\<close> may complete without \<open>is_down\<close> ever becoming true.
  \<^item> Handlers: which addresses become external, which peers are dialed and become explicit peers
    of gossipsub, which commands fail and what a command leaves alone, when a relay counts as
    connected and what is lost while a command waits for it, when starting does not end.
  \<^item> Construction: the behaviours built are the enabled ones with the configured values, and the
    configurations that panic.
  \<^item> Gossip: no message is lost or doubled between publishing, retrying and delivering; retries
    keep the order; \<open>poll\<close> ends when gossipsub settles.
  \<^item> DHT: the bootstrap flag and the queues in every reachable state; the retry loop makes the
    queued puts exactly when the store can take them all, and the two ways in which \<open>poll\<close> does
    not end.
  \<^item> Rendezvous: a tick renews every registration once and asks the connected points; an
    unregistered namespace comes back.
  \<^item> mDNS: every packet reads back as the message meant, other nodes discover exactly the
    addresses announced, an interface task does exactly what its ticks and datagrams call for,
    loses only what the socket or a closed channel refuses, and does not stop while the behaviour
    is there, the behaviour's list of nodes refines a map from nodes to expirations, its events tell the
    client exactly the changes of the list, and the running tasks are those of the
    interfaces that are up.
  \<^item> Shared parts: the retry timer's bounds, subscribers told once and pruned, the builder of the
    configuration.

  \<^bold>\<open>Not modelled.\<close>
  \<^item> \<open>lib.rs\<close> (modules and re-exports), \<open>errors.rs\<close> and \<open>message.rs\<close> (types that nothing uses),
    \<open>examples/test.rs\<close> (a program that calls the library), the tests, the \<open>Debug\<close> and \<open>Display\<close>
    implementations and the log output, which have no effect on the state.
  \<^item> Generated code: of the configuration's builder what its attributes say, of the combined
    behaviour and its event type the fields and the constructors; the connection
    callbacks that the behaviours delegate are modelled as the delegation.
  \<^item> The connected peers and their number: the event loop ignores these commands, so the model
    has the commands and that they are ignored, not the answers.
  \<^item> Real time and memory: a suspended task resumes in some later step, not after a time,
    and an allocation never fails.
\<close>

end
